theory Spec2Isabelle
  imports Main "HOL-Library.Word"
begin

unbundle bit_operations_syntax

section \<open>Values, byte buffers and streams\<close>

text \<open>
  A \<open>Uint8Array\<close> is a list of 8-bit words. A JavaScript field that may hold
  \<open>null\<close> (the constructor's initial value) or \<open>undefined\<close> (what the stream
  reader returns once its input is exhausted) is a \<open>jsval\<close>.
\<close>

type_synonym byte = "8 word"
type_synonym bytes = "byte list"

datatype 'a jsval = Undefined | Null | Val 'a

datatype error =
    UnsupportedVersion "nat jsval"
  | UnexpectedSessionKeySize
  | UnexpectedSessionKeyAlgorithm
  | ModificationDetected
  | UnexpectedPacketType
  | RangeError
  | TypeError
  | CollaboratorError nat

text \<open>
  Data handed around by the packet code is a \<open>Uint8Array\<close>, an \<open>ArrayStream\<close> of
  the stream library, or a platform stream. The model keeps the kind (the source
  branches on it), the bytes the data delivers in order, and how a stream ends: cleanly
  (\<open>None\<close>) or with an error raised once the bytes before it have been delivered.
  When the pieces of a stream arrive is not modelled.
\<close>

datatype skind = KArray | KArrayStream | KStream

record bdata =
  kind :: skind
  content :: bytes
  failure :: "error option"

definition array :: "bytes \<Rightarrow> bdata" where
  "array bs = \<lparr>kind = KArray, content = bs, failure = None\<rparr>"

definition isArrayStream :: "bdata \<Rightarrow> bool" where
  "isArrayStream d = (kind d = KArrayStream)"

definition isStream :: "bdata \<Rightarrow> bool" where
  "isStream d = (kind d \<noteq> KArray)"

definition streamReadToEnd :: "bdata \<Rightarrow> error + bytes" where
  "streamReadToEnd d = (case failure d of Some e \<Rightarrow> Inl e | None \<Rightarrow> Inr (content d))"

text \<open>\<open>TypedArray.prototype.subarray(begin, end)\<close>: negative indices count from the
  end, and both are clamped to the array.\<close>

definition subarray :: "'a list \<Rightarrow> int \<Rightarrow> int \<Rightarrow> 'a list" where
  "subarray xs b e =
     (let len = int (length xs);
          rb = (if b < 0 then max (len + b) 0 else min b len);
          re = (if e < 0 then max (len + e) 0 else min e len)
      in take (nat (re - rb)) (drop (nat rb) xs))"

definition subarray_from :: "'a list \<Rightarrow> int \<Rightarrow> 'a list" where
  "subarray_from xs b = subarray xs b (int (length xs))"

section \<open>The stream reader\<close>

text \<open>
  The reader of the stream library, on the bytes still to be read: \<open>readByte\<close> returns
  \<open>undefined\<close> at the end of the input; \<open>readBytes n\<close> returns \<open>n\<close> bytes, or the
  fewer bytes that are left, or \<open>undefined\<close> when none is left.
\<close>

definition readByte :: "bytes \<Rightarrow> byte jsval \<times> bytes" where
  "readByte xs = (case xs of [] \<Rightarrow> (Undefined, []) | x # r \<Rightarrow> (Val x, r))"

definition readBytes :: "nat \<Rightarrow> bytes \<Rightarrow> bytes jsval \<times> bytes" where
  "readBytes n xs = (if xs = [] then (Undefined, []) else (Val (take n xs), drop n xs))"

definition number :: "byte jsval \<Rightarrow> nat jsval" where
  "number v = (case v of Val b \<Rightarrow> Val (unat b) | Null \<Rightarrow> Null | Undefined \<Rightarrow> Undefined)"

section \<open>The Sym. Encrypted Integrity Protected Data packet\<close>

record 'pk seipd =
  version :: "nat jsval"
  cipherAlgorithm :: "nat jsval"
  aeadAlgorithm :: "nat jsval"
  chunkSizeByte :: "nat jsval"
  salt :: "bytes jsval"
  encrypted :: "bdata jsval"
  packets :: "'pk jsval"

definition constructor :: "'pk seipd" where
  "constructor =
     \<lparr>version = Null, cipherAlgorithm = Null, aeadAlgorithm = Null, chunkSizeByte = Null,
      salt = Null, encrypted = Null, packets = Null\<rparr>"

text \<open>
  \<open>read\<close>, on a packet body given as a \<open>Uint8Array\<close>. The result is the exception
  thrown, if any, and the packet as the call leaves it: the version is assigned before
  it is checked. The remainder of an array input is an \<open>ArrayStream\<close>.
\<close>

definition remainder :: "bytes \<Rightarrow> bdata" where
  "remainder xs = \<lparr>kind = KArrayStream, content = xs, failure = None\<rparr>"

definition read :: "bytes \<Rightarrow> 'pk seipd \<Rightarrow> error option \<times> 'pk seipd" where
  "read input this =
     (let (v, r0) = readByte input;
          this1 = this\<lparr>version := number v\<rparr>
      in if version this1 \<noteq> Val 1 \<and> version this1 \<noteq> Val 2
         then (Some (UnsupportedVersion (version this1)), this1)
         else
           let (this2, r) =
                 (if version this1 = Val 2
                  then
                    let (c, r1) = readByte r0;
                        (a, r2) = readByte r1;
                        (s, r3) = readByte r2;
                        (sl, r4) = readBytes 32 r3
                    in (this1\<lparr>cipherAlgorithm := number c, aeadAlgorithm := number a,
                              chunkSizeByte := number s, salt := sl\<rparr>, r4)
                  else (this1, r0))
           in (None, this2\<lparr>encrypted := Val (remainder r)\<rparr>))"

section \<open>CMAC\<close>

definition blockLength :: nat where
  "blockLength = 16"

text \<open>Element access on a typed array: a read past the end gives \<open>undefined\<close>, which
  \<open>^\<close> takes as 0; the write of \<open>data[idx] ^= v\<close> outside the array is ignored.
  \<open>rightXORMut\<close> writes into its argument and returns it; the model returns the
  array as written.\<close>

definition at0 :: "bytes \<Rightarrow> nat \<Rightarrow> byte" where
  "at0 xs i = (if i < length xs then xs ! i else 0)"

definition xor_at :: "bytes \<Rightarrow> int \<Rightarrow> byte \<Rightarrow> bytes" where
  "xor_at data idx v =
     (if 0 \<le> idx \<and> idx < int (length data)
      then data[nat idx := (data ! nat idx) XOR v] else data)"

definition rightXORMut :: "bytes \<Rightarrow> bytes \<Rightarrow> bytes" where
  "rightXORMut data padding =
     (let offset = int (length data) - int blockLength
      in fold (\<lambda>i d. xor_at d (int i + offset) (at0 padding i)) [0..<blockLength] data)"

definition pad :: "bytes \<Rightarrow> bytes \<Rightarrow> bytes \<Rightarrow> bytes" where
  "pad data padding padding2 =
     (if length data \<noteq> 0 \<and> length data mod blockLength = 0
      then rightXORMut data padding
      else
        let padded0 = replicate (length data + (blockLength - length data mod blockLength)) 0;
            padded1 = data @ drop (length data) padded0;
            padded2 = padded1[length data := 0x80]
        in rightXORMut padded2 padding2)"

definition zeroBlock :: bytes where
  "zeroBlock = replicate blockLength 0"

text \<open>
  \<open>CBC(key)\<close> hands the plaintext to the platform's AES-CBC with the zero block as
  IV and keeps the ciphertext of the complete blocks. The block cipher under the key is
  the parameter \<open>E\<close>; the mode is the chaining of \<open>E\<close> over the 16-byte blocks.
\<close>

function blocks :: "bytes \<Rightarrow> bytes list" where
  "blocks xs =
     (if length xs < blockLength then []
      else take blockLength xs # blocks (drop blockLength xs))"
  by pat_completeness auto
termination
  by (relation "measure length") (auto simp: blockLength_def)

declare blocks.simps [simp del]

definition xor_block :: "bytes \<Rightarrow> bytes \<Rightarrow> bytes" where
  "xor_block a b = map2 (XOR) a b"

fun cbc_chain :: "(bytes \<Rightarrow> bytes) \<Rightarrow> bytes \<Rightarrow> bytes list \<Rightarrow> bytes list" where
  "cbc_chain E c [] = []"
| "cbc_chain E c (m # ms) = (let c' = E (xor_block c m) in c' # cbc_chain E c' ms)"

definition CBC :: "(bytes \<Rightarrow> bytes) \<Rightarrow> bytes \<Rightarrow> bytes" where
  "CBC E pt = concat (cbc_chain E zeroBlock (blocks pt))"

text \<open>\<open>CMAC(key)\<close> applied to \<open>data\<close>. \<open>util.double\<close> is the parameter \<open>double\<close>.\<close>

definition CMAC :: "(bytes \<Rightarrow> bytes) \<Rightarrow> (bytes \<Rightarrow> bytes) \<Rightarrow> bytes \<Rightarrow> bytes" where
  "CMAC E double data =
     (let cbc = CBC E;
          padding = double (cbc zeroBlock);
          padding2 = double padding
      in subarray_from (cbc (pad data padding padding2)) (- int blockLength))"

subsection \<open>OMAC1 as the specification words it\<close>

text \<open>
  The reference definition, written from the specification's sentence and not from the
  code: the subkeys \<open>K1 = double L\<close> and \<open>K2 = double K1\<close> of \<open>L = E(0^n)\<close>, the
  choice between them, the padding \<open>10...0\<close>, and the CBC-MAC whose tag is the last
  chaining value.
\<close>

fun cbc_mac :: "(bytes \<Rightarrow> bytes) \<Rightarrow> bytes \<Rightarrow> bytes list \<Rightarrow> bytes" where
  "cbc_mac E c [] = c"
| "cbc_mac E c (m # ms) = cbc_mac E (E (xor_block c m)) ms"

definition xor_last_block :: "bytes \<Rightarrow> bytes \<Rightarrow> bytes" where
  "xor_last_block m k =
     take (length m - 16) m @ xor_block (drop (length m - 16) m) k"

definition omac1 :: "(bytes \<Rightarrow> bytes) \<Rightarrow> (bytes \<Rightarrow> bytes) \<Rightarrow> bytes \<Rightarrow> bytes" where
  "omac1 E double m =
     (let L = E (replicate 16 0);
          K1 = double L;
          K2 = double K1;
          m' = (if 0 < length m \<and> 16 dvd length m
                then xor_last_block m K1
                else xor_last_block (m @ 0x80 # replicate (15 - length m mod 16) 0) K2)
      in cbc_mac E (replicate 16 0) (blocks m'))"

text \<open>
  Modelled from the spec: \<open>util.double\<close> is not among the sources. The specification
  calls it doubling in GF(2^128): the block, read as a big-endian polynomial, is shifted
  left by one bit and reduced by \<open>x^128 + x^7 + x^2 + x + 1\<close> (the constant \<open>0x87\<close>).
  The theorems take the doubling as a parameter; this instance exercises them.
\<close>

definition gf_double :: "bytes \<Rightarrow> bytes" where
  "gf_double d =
     map (\<lambda>i. push_bit 1 (d ! i) XOR
              (if Suc i < length d then drop_bit 7 (d ! Suc i)
               else drop_bit 7 (d ! 0) * 0x87))
       [0..<length d]"

text \<open>A stand-in for the block cipher, with 16-byte output on every input: every byte
  \<open>b\<close> of the zero-extended block becomes \<open>3 b + 0x5A\<close>.\<close>

definition sample_cipher :: "bytes \<Rightarrow> bytes" where
  "sample_cipher x = map (\<lambda>b. 3 * b + 0x5A) (take 16 (x @ replicate 16 0))"


section \<open>Collaborators\<close>

text \<open>
  The cipher table, the AEAD modes, HKDF, the digest, CFB, the random source, the enums
  and the packet list are not among the sources: they are the fields of an environment,
  and every theorem holds for the environments its hypotheses describe. A collaborator
  that can throw returns a sum. The random draws of one run are the functions
  \<open>getRandomBytes\<close> and \<open>getPrefixRandom\<close>. CFB and the digest are functions of
  the bytes, whether these come as an array or as a stream; the configuration that
  \<open>cfb.encrypt\<close> is handed as well is left out.
\<close>

record cipher_params =
  blockSize :: nat
  keySize :: nat

record mode_instance =
  mi_encrypt :: "bytes \<Rightarrow> bytes \<Rightarrow> bytes \<Rightarrow> error + bytes"
  mi_decrypt :: "bytes \<Rightarrow> bytes \<Rightarrow> bytes \<Rightarrow> error + bytes"

record aead_mode =
  tagLength :: nat
  ivLength :: nat
  instantiate :: "nat jsval \<Rightarrow> bytes \<Rightarrow> mode_instance"

record config =
  aeadChunkSizeByte :: nat
  allowUnauthenticatedStream :: bool

record 'pk env =
  enums_packet_symEncryptedIntegrityProtectedData :: nat
  enums_packet_aeadEncryptedData :: nat
  enums_hash_sha1 :: nat
  enums_hash_sha256 :: nat
  getCipherParams :: "nat jsval \<Rightarrow> error + cipher_params"
  getAEADMode :: "nat jsval \<Rightarrow> bool \<Rightarrow> error + aead_mode"
  computeHKDF :: "nat \<Rightarrow> bytes \<Rightarrow> bytes jsval \<Rightarrow> bytes \<Rightarrow> nat \<Rightarrow> bytes"
  computeDigest :: "nat \<Rightarrow> bytes \<Rightarrow> bytes"
  getRandomBytes :: "nat \<Rightarrow> bytes"
  getPrefixRandom :: "nat \<Rightarrow> bytes"
  cfb_encrypt :: "nat \<Rightarrow> bytes \<Rightarrow> bytes \<Rightarrow> bytes \<Rightarrow> bytes"
  cfb_decrypt :: "nat \<Rightarrow> bytes \<Rightarrow> bytes \<Rightarrow> bytes \<Rightarrow> bytes"
  packets_write :: "'pk \<Rightarrow> bdata"
  fromBinary :: "bdata \<Rightarrow> bool \<Rightarrow> error + 'pk"

section \<open>The chunked AEAD engine\<close>

text \<open>
  The packet argument of \<open>runAEAD\<close>: an instance of the SEIPD class, or a packet of
  another class, of which the engine reads the constructor's tag, the header fields and
  the static IV.
\<close>

record other_packet =
  o_tag :: nat
  o_version :: "nat jsval"
  o_cipherAlgorithm :: "nat jsval"
  o_aeadAlgorithm :: "nat jsval"
  o_chunkSizeByte :: "nat jsval"
  o_iv :: bytes

datatype 'pk packet = SEIPD "'pk seipd" | Other other_packet

definition packet_tag :: "'pk env \<Rightarrow> 'pk packet \<Rightarrow> nat" where
  "packet_tag env p =
     (case p of SEIPD _ \<Rightarrow> enums_packet_symEncryptedIntegrityProtectedData env
              | Other q \<Rightarrow> o_tag q)"

definition packet_version :: "'pk packet \<Rightarrow> nat jsval" where
  "packet_version p = (case p of SEIPD q \<Rightarrow> version q | Other q \<Rightarrow> o_version q)"

definition packet_cipherAlgorithm :: "'pk packet \<Rightarrow> nat jsval" where
  "packet_cipherAlgorithm p =
     (case p of SEIPD q \<Rightarrow> cipherAlgorithm q | Other q \<Rightarrow> o_cipherAlgorithm q)"

definition packet_aeadAlgorithm :: "'pk packet \<Rightarrow> nat jsval" where
  "packet_aeadAlgorithm p =
     (case p of SEIPD q \<Rightarrow> aeadAlgorithm q | Other q \<Rightarrow> o_aeadAlgorithm q)"

definition packet_chunkSizeByte :: "'pk packet \<Rightarrow> nat jsval" where
  "packet_chunkSizeByte p =
     (case p of SEIPD q \<Rightarrow> chunkSizeByte q | Other q \<Rightarrow> o_chunkSizeByte q)"

datatype direction = Encrypt | Decrypt

text \<open>A number stored into a \<open>Uint8Array\<close> is taken modulo 256; \<open>null\<close> and
  \<open>undefined\<close> are stored as 0.\<close>

definition u8 :: "nat jsval \<Rightarrow> byte" where
  "u8 v = (case v of Val n \<Rightarrow> of_nat n | _ \<Rightarrow> 0)"

text \<open>\<open>2 ** (c + 6)\<close>: \<open>null\<close> counts as 0, and \<open>undefined\<close> makes the result
  \<open>NaN\<close>, which is \<open>None\<close> here.\<close>

definition chunk_bytes :: "nat jsval \<Rightarrow> nat option" where
  "chunk_bytes c =
     (case c of Val n \<Rightarrow> Some (2 ^ (n + 6)) | Null \<Rightarrow> Some (2 ^ 6) | Undefined \<Rightarrow> None)"

text \<open>\<open>DataView.setInt32(offset, v)\<close>: \<open>v\<close> modulo \<open>2^32\<close>, big-endian, and a
  \<open>RangeError\<close> when the four bytes do not fit the view.\<close>

definition int32_bytes :: "int \<Rightarrow> bytes" where
  "int32_bytes v =
     (let w = (word_of_int v :: 32 word)
      in [ucast (drop_bit 24 w), ucast (drop_bit 16 w), ucast (drop_bit 8 w), ucast w])"

text \<open>\<open>DataView.getUint32(offset)\<close> on the four bytes at the offset: the big-endian
  value, by which the theorems say what a counter field holds.\<close>

definition uint32_of :: "bytes \<Rightarrow> nat" where
  "uint32_of bs = foldl (\<lambda>a b. 256 * a + unat b) 0 bs"

definition setInt32 :: "bytes \<Rightarrow> int \<Rightarrow> int \<Rightarrow> error + bytes" where
  "setInt32 view off v =
     (if 0 \<le> off \<and> off + 4 \<le> int (length view)
      then Inr (take (nat off) view @ int32_bytes v @ drop (nat off + 4) view)
      else Inl RangeError)"

text \<open>\<open>iv.fill(0, start)\<close>: a negative start counts from the end.\<close>

definition fill0 :: "bytes \<Rightarrow> int \<Rightarrow> bytes" where
  "fill0 a start =
     (let len = int (length a);
          k = (if start < 0 then max (len + start) 0 else min start len)
      in take (nat k) a @ replicate (nat (len - k)) 0)"

text \<open>
  What the loop keeps between iterations: the chunk counter, the byte count, the IV
  buffer (overwritten in place for SEIPD v2), the associated-data buffer (13 bytes, or
  21 for the AEAD packet), and the reader: the bytes not yet consumed and how the source
  ends. What is fixed for the run is \<open>aead_cfg\<close>. The count of queued bytes only
  decides when the loop waits for the sink and is left out.
\<close>

record aead_cfg =
  isSEIPDv2 :: bool
  chunkSize :: "nat option"
  tagLengthIfDecrypting :: nat
  chunkIndexSizeIfAEADEP :: nat

record aead_state =
  chunkIndex :: nat
  cryptedBytes :: int
  iv :: bytes
  adataBuffer :: bytes
  reader :: bytes
  source_failure :: "error option"

text \<open>One call of \<open>modeInstance[fn](chunk, nonce, adata)\<close>, with the arguments as
  they stand when the call is made.\<close>

record aead_call =
  c_final :: bool
  c_chunk :: bytes
  c_nonce :: bytes
  c_adata :: bytes

text \<open>
  \<open>reader.readBytes(n) || new Uint8Array()\<close>. The call returns once \<open>n\<close> bytes have
  arrived, or at the clean end of the source with the bytes that are left; it throws
  when the source fails before that. \<open>NaN\<close> bytes never arrive.
\<close>

definition read_chunk :: "nat option \<Rightarrow> bytes \<Rightarrow> error option \<Rightarrow> error + (bytes \<times> bytes)" where
  "read_chunk n xs fl =
     (case n of
        Some k \<Rightarrow>
          (if k \<le> length xs then Inr (take k xs, drop k xs)
           else (case fl of None \<Rightarrow> Inr (xs, []) | Some e \<Rightarrow> Inl e))
      | None \<Rightarrow> (case fl of None \<Rightarrow> Inr (xs, []) | Some e \<Rightarrow> Inl e))"

definition chunkIndexArray :: "bytes \<Rightarrow> bytes" where
  "chunkIndexArray buf = take 8 (drop 5 buf)"

definition aeadp_nonce :: "bytes \<Rightarrow> bytes \<Rightarrow> bytes" where
  "aeadp_nonce iv0 cia =
     fold (\<lambda>i nonce. xor_at nonce (int (length iv0) - 8 + int i) (at0 cia i)) [0..<8] iv0"

datatype step = Next aead_call aead_state | Last "aead_call list" "error option"

definition aead_step :: "aead_cfg \<Rightarrow> aead_state \<Rightarrow> step" where
  "aead_step cfg st =
     (case read_chunk (map_option (\<lambda>n. n + tagLengthIfDecrypting cfg) (chunkSize cfg))
             (reader st) (source_failure st) of
        Inl e \<Rightarrow> Last [] (Some e)
      | Inr (chunk0, rest) \<Rightarrow>
          let finalChunk =
                subarray_from chunk0 (int (length chunk0) - int (tagLengthIfDecrypting cfg));
              chunk = subarray chunk0 0 (int (length chunk0) - int (tagLengthIfDecrypting cfg));
              nonce = (if isSEIPDv2 cfg then iv st
                       else aeadp_nonce (iv st) (chunkIndexArray (adataBuffer st)))
          in if chunkIndex st = 0 \<or> chunk \<noteq> []
             then
               let call = \<lparr>c_final = False, c_chunk = chunk, c_nonce = nonce,
                           c_adata = take (5 + chunkIndexSizeIfAEADEP cfg) (adataBuffer st)\<rparr>;
                   st1 = st\<lparr>reader := finalChunk @ rest,
                            cryptedBytes := cryptedBytes st +
                              (int (length chunk) - int (tagLengthIfDecrypting cfg))\<rparr>
               in if isSEIPDv2 cfg
                  then (case setInt32 (iv st) (int (length (iv st)) - 4)
                               (int (chunkIndex st) + 1) of
                          Inl e \<Rightarrow> Last [call] (Some e)
                        | Inr iv' \<Rightarrow>
                            Next call (st1\<lparr>chunkIndex := chunkIndex st + 1, iv := iv'\<rparr>))
                  else (case setInt32 (adataBuffer st) (5 + 4) (int (chunkIndex st) + 1) of
                          Inl e \<Rightarrow> Last [call] (Some e)
                        | Inr ab \<Rightarrow>
                            Next call (st1\<lparr>chunkIndex := chunkIndex st + 1,
                                            adataBuffer := ab\<rparr>))
             else
               (case setInt32 (adataBuffer st)
                       (5 + int (chunkIndexSizeIfAEADEP cfg) + 4) (cryptedBytes st) of
                  Inl e \<Rightarrow> Last [] (Some e)
                | Inr ab \<Rightarrow>
                    Last [\<lparr>c_final = True, c_chunk = finalChunk, c_nonce = nonce,
                           c_adata = ab\<rparr>] None))"

text \<open>The \<open>while (true)\<close> loop: the calls it makes, in order, and the exception that
  ends it, if any.\<close>

function aead_loop :: "aead_cfg \<Rightarrow> aead_state \<Rightarrow> aead_call list \<times> error option" where
  "aead_loop cfg st =
     (case aead_step cfg st of
        Next call st' \<Rightarrow> (call # fst (aead_loop cfg st'), snd (aead_loop cfg st'))
      | Last calls e \<Rightarrow> (calls, e))"
  by pat_completeness auto
termination
proof -
  let ?m = "measure (\<lambda>(cfg :: aead_cfg, st).
              length (reader st) + (if chunkIndex st = 0 then 1 else 0))"
  have dec: "((cfg, st'), (cfg, st)) \<in> ?m" if s: "aead_step cfg st = Next call st'"
    for cfg st call st'
  proof -
    let ?t = "int (tagLengthIfDecrypting cfg)"
    obtain chunk0 rest where
      r: "read_chunk (map_option (\<lambda>n. n + tagLengthIfDecrypting cfg) (chunkSize cfg))
            (reader st) (source_failure st) = Inr (chunk0, rest)"
      using s by (auto simp: aead_step_def split: sum.splits)
    have cat: "chunk0 @ rest = reader st"
      using r by (auto simp: read_chunk_def split: option.splits if_splits)
    have split: "subarray chunk0 0 (int (length chunk0) - ?t) @
                 subarray_from chunk0 (int (length chunk0) - ?t) = chunk0"
      by (auto simp: subarray_def subarray_from_def Let_def min_def max_def nat_diff_distrib
          simp flip: take_add)
    have rd: "reader st' = subarray_from chunk0 (int (length chunk0) - ?t) @ rest"
      and ci: "chunkIndex st' \<noteq> 0"
      and c: "chunkIndex st = 0 \<or> subarray chunk0 0 (int (length chunk0) - ?t) \<noteq> []"
      using s r by (auto simp: aead_step_def Let_def split: sum.splits if_splits)
    have "length (reader st) =
            length (subarray chunk0 0 (int (length chunk0) - ?t)) + length (reader st')"
      unfolding rd cat[symmetric] using arg_cong[OF split, of length] by simp
    with ci c show ?thesis
      by auto
  qed
  show ?thesis
    by (relation ?m) (simp, (rule dec, assumption)+)
qed

declare aead_loop.simps [simp del]

text \<open>
  The sink. The writes are chained in the order of the calls, so the output is the
  results in that order up to the first call that fails, whose error aborts the sink;
  the exception that ended the loop aborts it when no call failed. In both cases the
  consumer sees the bytes written before and then the error.
\<close>

definition crypt :: "mode_instance \<Rightarrow> direction \<Rightarrow> aead_call \<Rightarrow> error + bytes" where
  "crypt inst fn c =
     (case fn of
        Encrypt \<Rightarrow> mi_encrypt inst (c_chunk c) (c_nonce c) (c_adata c)
      | Decrypt \<Rightarrow> mi_decrypt inst (c_chunk c) (c_nonce c) (c_adata c))"

fun sink :: "(error + bytes) list \<Rightarrow> error option \<Rightarrow> bytes \<times> error option" where
  "sink [] e = ([], e)"
| "sink (Inl err # rs) e = ([], Some err)"
| "sink (Inr out # rs) e = (out @ fst (sink rs e), snd (sink rs e))"

text \<open>
  \<open>runAEAD\<close> up to the transform: the packet check, the mode, the associated-data
  buffer, and for SEIPD v2 the key and IV derived by HKDF. \<open>adata_header\<close> is the five
  bytes set into \<open>adataArray\<close>; \<open>derive_key_iv\<close> is the HKDF call with the split of
  its output into the key and the IV, whose last eight bytes \<open>fill\<close> zeroes. The calls
  of the AEAD primitive take their nonce and associated data as they stand at the call.
  The \<open>TransformStream\<close> put before the sink of a source that is not an array
  changes when bytes move, not which bytes, and is left out.
\<close>

definition adata_header :: "'pk env \<Rightarrow> 'pk packet \<Rightarrow> bytes" where
  "adata_header env packet =
     [of_nat (0xC0 OR packet_tag env packet), u8 (packet_version packet),
      u8 (packet_cipherAlgorithm packet), u8 (packet_aeadAlgorithm packet),
      u8 (packet_chunkSizeByte packet)]"

definition derive_key_iv ::
  "'pk env \<Rightarrow> bytes \<Rightarrow> 'pk seipd \<Rightarrow> bytes \<Rightarrow> nat \<Rightarrow> nat \<Rightarrow> bytes \<times> bytes" where
  "derive_key_iv env key p info ksz ivl =
     (let derived = computeHKDF env (enums_hash_sha256 env) key (salt p) info (ksz + ivl);
          key' = subarray derived 0 (int ksz);
          iv0 = subarray_from derived (int ksz)
      in (key', fill0 iv0 (int (length iv0) - 8)))"

definition aead_setup ::
  "'pk env \<Rightarrow> 'pk packet \<Rightarrow> direction \<Rightarrow> bytes \<Rightarrow> error + (aead_cfg \<times> aead_state \<times> mode_instance)" where
  "aead_setup env packet fn key =
     (let isSEIPDv2 = (case packet of SEIPD p \<Rightarrow> version p = Val 2 | Other _ \<Rightarrow> False);
          isAEADP = (\<not> isSEIPDv2 \<and> packet_tag env packet = enums_packet_aeadEncryptedData env)
      in if \<not> isSEIPDv2 \<and> \<not> isAEADP then Inl UnexpectedPacketType
         else
           case getAEADMode env (packet_aeadAlgorithm packet) isAEADP of
             Inl e \<Rightarrow> Inl e
           | Inr mode \<Rightarrow>
               let tagLengthIfDecrypting = (if fn = Decrypt then tagLength mode else 0);
                   chunkSize = map_option (\<lambda>n. n + tagLengthIfDecrypting)
                                 (chunk_bytes (packet_chunkSizeByte packet));
                   chunkIndexSizeIfAEADEP = (if isAEADP then 8 else 0);
                   adataBuffer = adata_header env packet @ replicate (8 + chunkIndexSizeIfAEADEP) 0;
                   cfg = \<lparr>isSEIPDv2 = isSEIPDv2, chunkSize = chunkSize,
                          tagLengthIfDecrypting = tagLengthIfDecrypting,
                          chunkIndexSizeIfAEADEP = chunkIndexSizeIfAEADEP\<rparr>
               in case packet of
                    SEIPD p \<Rightarrow>
                      (case getCipherParams env (cipherAlgorithm p) of
                         Inl e \<Rightarrow> Inl e
                       | Inr cp \<Rightarrow>
                           let (key', iv1) = derive_key_iv env key p (take 5 adataBuffer)
                                               (keySize cp) (ivLength mode)
                           in Inr (cfg,
                                   \<lparr>chunkIndex = 0, cryptedBytes = 0, iv = iv1,
                                    adataBuffer = adataBuffer, reader = [],
                                    source_failure = None\<rparr>,
                                   instantiate mode (cipherAlgorithm p) key'))
                  | Other q \<Rightarrow>
                      Inr (cfg,
                           \<lparr>chunkIndex = 0, cryptedBytes = 0, iv = o_iv q,
                            adataBuffer = adataBuffer, reader = [], source_failure = None\<rparr>,
                           instantiate mode (o_cipherAlgorithm q) key))"

definition runAEAD ::
  "'pk env \<Rightarrow> 'pk packet \<Rightarrow> direction \<Rightarrow> bytes \<Rightarrow> bdata \<Rightarrow> error + bdata" where
  "runAEAD env packet fn key data =
     (case aead_setup env packet fn key of
        Inl e \<Rightarrow> Inl e
      | Inr (cfg, st0, modeInstance) \<Rightarrow>
          let (calls, thrown) =
                aead_loop cfg (st0\<lparr>reader := content data, source_failure := failure data\<rparr>);
              (out, fl) = sink (map (crypt modeInstance fn) calls) thrown
          in Inr \<lparr>kind = (if kind data = KStream then KStream else KArrayStream),
                  content = out, failure = fl\<rparr>)"

section \<open>Encrypting and decrypting the packet\<close>

text \<open>\<open>if (isArrayStream(x)) x = await streamReadToEnd(x)\<close>\<close>

definition materialize :: "bdata \<Rightarrow> error + bdata" where
  "materialize d =
     (if isArrayStream d
      then (case streamReadToEnd d of Inl e \<Rightarrow> Inl e | Inr bs \<Rightarrow> Inr (array bs))
      else Inr d)"

text \<open>
  A transform applied to data keeps its kind and its end. Of a stream that fails, the
  bytes are those the transform yields on what the source delivered.
\<close>

definition on_content :: "(bytes \<Rightarrow> bytes) \<Rightarrow> bdata \<Rightarrow> bdata" where
  "on_content f d = d\<lparr>content := f (content d)\<rparr>"

text \<open>
  The methods return the exception thrown, if any, and the packet as the call leaves
  it. \<open>encrypt\<close> and \<open>decrypt\<close> return \<open>true\<close> otherwise.
\<close>

definition encrypt ::
  "'pk env \<Rightarrow> config \<Rightarrow> nat \<Rightarrow> bytes \<Rightarrow> 'pk seipd \<Rightarrow> error option \<times> 'pk seipd" where
  "encrypt env cfg sessionKeyAlgorithm key this =
     (case getCipherParams env (Val sessionKeyAlgorithm) of
        Inl e \<Rightarrow> (Some e, this)
      | Inr cp \<Rightarrow>
          if length key \<noteq> keySize cp then (Some UnexpectedSessionKeySize, this)
          else
            case packets this of
              Val pk \<Rightarrow>
                (case materialize (packets_write env pk) of
                   Inl e \<Rightarrow> (Some e, this)
                 | Inr bytes \<Rightarrow>
                     if version this = Val 2
                     then
                       let this1 = this\<lparr>cipherAlgorithm := Val sessionKeyAlgorithm,
                                        salt := Val (getRandomBytes env 32),
                                        chunkSizeByte := Val (aeadChunkSizeByte cfg)\<rparr>
                       in (case runAEAD env (SEIPD this1) Encrypt key bytes of
                             Inl e \<Rightarrow> (Some e, this1)
                           | Inr enc \<Rightarrow> (None, this1\<lparr>encrypted := Val enc\<rparr>))
                     else
                       let prefix = getPrefixRandom env sessionKeyAlgorithm;
                           mdc = [0xD3, 0x14];
                           tohash = on_content (\<lambda>b. prefix @ b @ mdc) bytes;
                           plaintext = on_content
                             (\<lambda>t. t @ computeDigest env (enums_hash_sha1 env) t) tohash
                       in (None,
                           this\<lparr>encrypted := Val (on_content
                              (\<lambda>pt. cfb_encrypt env sessionKeyAlgorithm key pt
                                      (replicate (blockSize cp) 0)) plaintext)\<rparr>))
            | _ \<Rightarrow> (Some TypeError, this))"

text \<open>
  The legacy branch of \<open>decrypt\<close>: the bytes for the packet-list parser and the
  \<open>delayErrors\<close> flag. \<open>verifyHash\<close> ends the stream of packet bytes: with nothing
  when the digests are equal, with the error otherwise.
\<close>

definition decrypt_cfb ::
  "'pk env \<Rightarrow> config \<Rightarrow> nat \<Rightarrow> bytes \<Rightarrow> cipher_params \<Rightarrow> bdata \<Rightarrow> error + (bdata \<times> bool)" where
  "decrypt_cfb env cfg sessionKeyAlgorithm key cp enc =
     (let decrypted = on_content
            (\<lambda>ct. cfb_decrypt env sessionKeyAlgorithm key ct (replicate (blockSize cp) 0))
            enc;
          realHash = on_content (\<lambda>b. subarray_from b (- 20)) decrypted;
          tohash = on_content (\<lambda>b. subarray b 0 (- 20)) decrypted;
          verifyHash =
            (case failure decrypted of
               Some e \<Rightarrow> Some e
             | None \<Rightarrow>
                 if computeDigest env (enums_hash_sha1 env) (content tohash) \<noteq> content realHash
                 then Some ModificationDetected else None);
          bytes = on_content (\<lambda>b. subarray_from b (int (blockSize cp) + 2)) tohash;
          packetbytes0 = on_content (\<lambda>b. subarray b 0 (- 2)) bytes;
          packetbytes = \<lparr>kind = (if kind packetbytes0 = KStream then KStream else KArrayStream),
                         content = content packetbytes0, failure = verifyHash\<rparr>
      in if isStream enc \<and> allowUnauthenticatedStream cfg
         then Inr (packetbytes, True)
         else (case streamReadToEnd packetbytes of
                 Inl e \<Rightarrow> Inl e
               | Inr bs \<Rightarrow> Inr (array bs, False)))"

definition decrypt ::
  "'pk env \<Rightarrow> config \<Rightarrow> nat \<Rightarrow> bytes \<Rightarrow> 'pk seipd \<Rightarrow> error option \<times> 'pk seipd" where
  "decrypt env cfg sessionKeyAlgorithm key this =
     (case getCipherParams env (Val sessionKeyAlgorithm) of
        Inl e \<Rightarrow> (Some e, this)
      | Inr cp \<Rightarrow>
          if length key \<noteq> keySize cp then (Some UnexpectedSessionKeySize, this)
          else
            case encrypted this of
              Val enc0 \<Rightarrow>
                (case materialize enc0 of
                   Inl e \<Rightarrow> (Some e, this)
                 | Inr enc \<Rightarrow>
                     (case (if version this = Val 2
                            then
                              if cipherAlgorithm this \<noteq> Val sessionKeyAlgorithm
                              then Inl UnexpectedSessionKeyAlgorithm
                              else (case runAEAD env (SEIPD this) Decrypt key enc of
                                      Inl e \<Rightarrow> Inl e
                                    | Inr packetbytes \<Rightarrow> Inr (packetbytes, False))
                            else decrypt_cfb env cfg sessionKeyAlgorithm key cp enc) of
                        Inl e \<Rightarrow> (Some e, this)
                      | Inr (packetbytes, delayErrors) \<Rightarrow>
                          (case fromBinary env packetbytes delayErrors of
                             Inl e \<Rightarrow> (Some e, this)
                           | Inr pk \<Rightarrow> (None, this\<lparr>packets := Val pk\<rparr>))))
            | _ \<Rightarrow> (Some TypeError, this))"

section \<open>What the collaborators promise\<close>

text \<open>
  The contracts of the collaborators, as the specification states them: an AEAD mode
  whose \<open>encrypt\<close> appends a tag of \<open>tagLength\<close> bytes and whose \<open>decrypt\<close> undoes
  it under the same nonce and associated data; a key derivation that returns the
  requested number of bytes; a CFB whose \<open>decrypt\<close> undoes \<open>encrypt\<close> under the same
  key and IV; a digest of 20 bytes.
\<close>

definition aead_contract :: "aead_mode \<Rightarrow> bool" where
  "aead_contract mode \<longleftrightarrow>
     (\<forall>alg k p n a. \<exists>c.
        mi_encrypt (instantiate mode alg k) p n a = Inr c \<and>
        length c = length p + tagLength mode \<and>
        mi_decrypt (instantiate mode alg k) c n a = Inr p)"

definition hkdf_contract :: "'pk env \<Rightarrow> bool" where
  "hkdf_contract env \<longleftrightarrow> (\<forall>h k s i n. length (computeHKDF env h k s i n) = n)"

definition cfb_contract :: "'pk env \<Rightarrow> bool" where
  "cfb_contract env \<longleftrightarrow>
     (\<forall>a k pt v. cfb_decrypt env a k (cfb_encrypt env a k pt v) v = pt)"

definition digest_contract :: "'pk env \<Rightarrow> bool" where
  "digest_contract env \<longleftrightarrow> (\<forall>h b. length (computeDigest env h b) = 20)"

section \<open>A sample environment\<close>

text \<open>
  Stand-ins for the collaborators, on which the theorems are exercised: an AEAD mode
  with a two-byte tag over the chunk, the nonce and the associated data, a byte-wise
  CFB, a 20-byte digest, and a packet list that is its own byte sequence. None of them
  is the real primitive; they have the shapes the hypotheses ask for.
\<close>

definition sample_tag :: "bytes \<Rightarrow> bytes \<Rightarrow> bytes \<Rightarrow> bytes" where
  "sample_tag p n a = [sum_list p + sum_list n + sum_list a, of_nat (length p) XOR 0xA5]"

definition sample_instance :: "nat jsval \<Rightarrow> bytes \<Rightarrow> mode_instance" where
  "sample_instance alg k =
     \<lparr>mi_encrypt = (\<lambda>p n a. Inr (map (\<lambda>b. b + sum_list k) p @ sample_tag p n a)),
      mi_decrypt = (\<lambda>c n a.
        let body = take (length c - 2) c;
            p = map (\<lambda>b. b - sum_list k) body
        in if 2 \<le> length c \<and> drop (length c - 2) c = sample_tag p n a
           then Inr p else Inl (CollaboratorError 1))\<rparr>"

definition sample_mode :: aead_mode where
  "sample_mode = \<lparr>tagLength = 2, ivLength = 12, instantiate = sample_instance\<rparr>"

definition sample_env :: "bytes env" where
  "sample_env =
     \<lparr>enums_packet_symEncryptedIntegrityProtectedData = 18,
      enums_packet_aeadEncryptedData = 20,
      enums_hash_sha1 = 2,
      enums_hash_sha256 = 8,
      getCipherParams = (\<lambda>a. if a = Val 7 then Inr \<lparr>blockSize = 16, keySize = 16\<rparr>
                              else Inl (CollaboratorError 2)),
      getAEADMode = (\<lambda>a legacy. if a = Val 3 then Inr sample_mode
                                  else Inl (CollaboratorError 3)),
      computeHKDF = (\<lambda>h k s info n. map (\<lambda>i. of_nat i + sum_list k + sum_list info) [0..<n]),
      computeDigest = (\<lambda>h b. replicate 19 0 @ [sum_list b]),
      getRandomBytes = (\<lambda>n. replicate n 0x42),
      getPrefixRandom = (\<lambda>a. replicate 16 7 @ [7, 7]),
      cfb_encrypt = (\<lambda>a k pt v. map (\<lambda>b. b + sum_list k) pt),
      cfb_decrypt = (\<lambda>a k ct v. map (\<lambda>b. b - sum_list k) ct),
      packets_write = array,
      fromBinary = (\<lambda>d delay. case failure d of Some e \<Rightarrow> Inl e | None \<Rightarrow> Inr (content d))\<rparr>"

definition sample_config :: config where
  "sample_config = \<lparr>aeadChunkSizeByte = 0, allowUnauthenticatedStream = False\<rparr>"

definition sample_key :: bytes where
  "sample_key = [1, 2, 3, 4, 5, 6, 7, 8, 9, 10, 11, 12, 13, 14, 15, 16]"

definition sample_packet :: "bytes seipd" where
  "sample_packet =
     constructor\<lparr>version := Val 2, cipherAlgorithm := Val 7, aeadAlgorithm := Val 3,
                 chunkSizeByte := Val 0, salt := Val (replicate 32 0x42),
                 packets := Val [1, 2, 3]\<rparr>"

section \<open>Parsing\<close>

lemma read_empty:
  "read [] this = (Some (UnsupportedVersion Undefined), this\<lparr>version := Undefined\<rparr>)"
  by (simp add: read_def readByte_def number_def)

lemma read_unsupported:
  assumes "v \<noteq> 1" and "v \<noteq> 2"
  shows "read (v # r) this =
           (Some (UnsupportedVersion (Val (unat v))), this\<lparr>version := Val (unat v)\<rparr>)"
proof -
  have "unat v \<noteq> 1" "unat v \<noteq> 2"
    using assms word_unat_eq_iff[of v 1] word_unat_eq_iff[of v 2] by simp_all
  then show ?thesis
    by (simp add: read_def readByte_def number_def)
qed

lemma read_v1:
  "read (1 # r) this = (None, this\<lparr>version := Val 1, encrypted := Val (remainder r)\<rparr>)"
  by (simp add: read_def readByte_def number_def)

lemma read_v2_full:
  assumes "length sl = 32"
  shows "read (2 # c # a # s # sl @ r) this =
           (None, this\<lparr>version := Val 2, cipherAlgorithm := Val (unat c),
                       aeadAlgorithm := Val (unat a), chunkSizeByte := Val (unat s),
                       salt := Val sl, encrypted := Val (remainder r)\<rparr>)"
  using assms by (auto simp add: read_def readByte_def readBytes_def number_def)

lemma read_v2_any:
  "read (2 # r) this =
     (None, this\<lparr>version := Val 2,
                 cipherAlgorithm := number (fst (readByte r)),
                 aeadAlgorithm := number (fst (readByte (drop 1 r))),
                 chunkSizeByte := number (fst (readByte (drop 2 r))),
                 salt := fst (readBytes 32 (drop 3 r)),
                 encrypted := Val (remainder (drop 35 r))\<rparr>)"
proof -
  consider "r = []" | c where "r = [c]" | c a where "r = [c, a]"
    | c a s r' where "r = c # a # s # r'"
    by (metis list.exhaust)
  then show ?thesis
    by cases (simp_all add: read_def readByte_def readBytes_def number_def)
qed

lemma read_v2_short:
  assumes "length r < 35"
  shows "fst (read (2 # r) this) = None \<and>
         salt (snd (read (2 # r) this)) =
           (if length r \<le> 3 then Undefined else Val (drop 3 r)) \<and>
         encrypted (snd (read (2 # r) this)) = Val (remainder [])"
  using assms by (simp add: read_v2_any readBytes_def)

text \<open>
  Claim C8, as amended. \<open>read\<close> takes the first byte as the version and fails with the
  unsupported-version error when the input is empty or the byte is neither 1 nor 2
  (the version field is assigned before the check). For version 1 the rest is the
  payload. For version 2 followed by at least 35 bytes it parses one cipher-algorithm
  byte, one AEAD-algorithm byte, one chunk-size byte and a 32-byte salt, in that order,
  and the rest is the payload. A version-2 input with fewer than 35 further bytes is
  accepted without an error: the salt is what is left after the three header bytes
  (undefined when nothing is left) and the payload is empty.
\<close>

theorem read_layout:
  "read [] this = (Some (UnsupportedVersion Undefined), this\<lparr>version := Undefined\<rparr>) \<and>
   (v \<noteq> 1 \<and> v \<noteq> 2 \<longrightarrow>
      read (v # r) this =
        (Some (UnsupportedVersion (Val (unat v))), this\<lparr>version := Val (unat v)\<rparr>)) \<and>
   read (1 # r) this = (None, this\<lparr>version := Val 1, encrypted := Val (remainder r)\<rparr>) \<and>
   (length sl = 32 \<longrightarrow>
      read (2 # c # a # s # sl @ r) this =
        (None, this\<lparr>version := Val 2, cipherAlgorithm := Val (unat c),
                    aeadAlgorithm := Val (unat a), chunkSizeByte := Val (unat s),
                    salt := Val sl, encrypted := Val (remainder r)\<rparr>)) \<and>
   (length r < 35 \<longrightarrow>
      fst (read (2 # r) this) = None \<and>
      salt (snd (read (2 # r) this)) = (if length r \<le> 3 then Undefined else Val (drop 3 r)) \<and>
      encrypted (snd (read (2 # r) this)) = Val (remainder []))"
  using read_empty[of this] read_unsupported[of v r this] read_v1[of r this]
    read_v2_full[of sl c a s r this] read_v2_short[of r this]
  by simp

theorem read_layout_witness:
  "read (2 # 9 # 2 # 0 # replicate 32 5 @ [1, 2, 3]) (constructor :: unit seipd) =
     (None, constructor\<lparr>version := Val 2, cipherAlgorithm := Val 9, aeadAlgorithm := Val 2,
                        chunkSizeByte := Val 0, salt := Val (replicate 32 5),
                        encrypted := Val (remainder [1, 2, 3])\<rparr>) \<and>
   read [3, 1, 2] (constructor :: unit seipd) =
     (Some (UnsupportedVersion (Val 3)), constructor\<lparr>version := Val 3\<rparr>) \<and>
   fst (read [2, 9, 2] (constructor :: unit seipd)) = None"
  using read_layout[where this = "constructor :: unit seipd" and v = 3 and r = "[1, 2, 3]"
      and sl = "replicate 32 5" and c = 9 and a = 2 and s = 0]
    read_layout[where this = "constructor :: unit seipd" and v = 3 and r = "[1, 2]"
      and sl = "[]"]
    read_layout[where this = "constructor :: unit seipd" and v = 3 and r = "[9, 2]"
      and sl = "[]"]
  by simp

text \<open>
  Claim C8 as stated fails on a truncated version-2 body: seven bytes are accepted and
  leave a three-byte salt.
\<close>

theorem read_truncated_counterexample:
  "fst (read [2, 9, 2, 0, 1, 2, 3] (constructor :: unit seipd)) = None \<and>
   salt (snd (read [2, 9, 2, 0, 1, 2, 3] (constructor :: unit seipd))) = Val [1, 2, 3] \<and>
   encrypted (snd (read [2, 9, 2, 0, 1, 2, 3] (constructor :: unit seipd))) = Val (remainder [])"
  by (simp add: read_def readByte_def readBytes_def number_def)

section \<open>CMAC computes OMAC1\<close>

lemma length_xor_at [simp]: "length (xor_at d i v) = length d"
  by (simp add: xor_at_def)

lemma fold_xor_length [simp]:
  "length (fold (\<lambda>i d. xor_at d (int i + off) (f i)) is d) = length d"
  by (induction "is" arbitrary: d) auto

lemma xor_at_nth:
  "j < length d \<Longrightarrow>
     xor_at d (int i) v ! j = (if j = i then d ! j XOR v else d ! j)"
  by (auto simp: xor_at_def)

lemma fold_xor_nth:
  assumes "j < length d"
  shows "fold (\<lambda>i d. xor_at d (int i + int off) (f i)) [0..<n] d ! j =
           (if off \<le> j \<and> j < off + n then d ! j XOR f (j - off) else d ! j)"
  using assms
proof (induction n)
  case 0
  then show ?case by auto
next
  case (Suc n)
  have "xor_at (fold (\<lambda>i d. xor_at d (int i + int off) (f i)) [0..<n] d)
          (int (n + off)) (f n) ! j =
        (if j = n + off
         then fold (\<lambda>i d. xor_at d (int i + int off) (f i)) [0..<n] d ! j XOR f n
         else fold (\<lambda>i d. xor_at d (int i + int off) (f i)) [0..<n] d ! j)"
    using Suc.prems by (intro xor_at_nth) simp
  with Suc show ?case
    by (auto simp: add.commute)
qed

lemma rightXORMut_eq:
  assumes "16 \<le> length d" and "length k = 16"
  shows "rightXORMut d k = xor_last_block d k"
proof (rule nth_equalityI)
  show "length (rightXORMut d k) = length (xor_last_block d k)"
    using assms by (simp add: rightXORMut_def xor_last_block_def xor_block_def blockLength_def)
next
  fix j assume "j < length (rightXORMut d k)"
  then have j: "j < length d" by (simp add: rightXORMut_def)
  have r: "rightXORMut d k =
             fold (\<lambda>i da. xor_at da (int i + int (length d - 16)) (at0 k i)) [0..<16] d"
    using assms by (simp add: rightXORMut_def blockLength_def of_nat_diff)
  have "rightXORMut d k ! j =
          (if length d - 16 \<le> j \<and> j < length d - 16 + 16
           then d ! j XOR at0 k (j - (length d - 16)) else d ! j)"
    unfolding r using j by (rule fold_xor_nth)
  then show "rightXORMut d k ! j = xor_last_block d k ! j"
    using assms j
    by (auto simp: xor_last_block_def xor_block_def at0_def nth_append)
qed

lemma pad_aligned:
  assumes "0 < length m" and "16 dvd length m" and "length k1 = 16"
  shows "pad m k1 k2 = xor_last_block m k1"
proof -
  have "16 \<le> length m" using assms by (simp add: dvd_imp_le)
  then show ?thesis
    using assms by (simp add: pad_def blockLength_def rightXORMut_eq mod_eq_0_iff_dvd)
qed

lemma padded_eq:
  "(m @ drop (length m) (replicate (length m + (16 - length m mod 16)) 0))
      [length m := 0x80] = m @ 0x80 # replicate (15 - length m mod 16) (0::byte)"
proof -
  define k where "k = 15 - length m mod 16"
  have e: "16 - length m mod 16 = Suc k"
    unfolding k_def by (simp add: Suc_diff_le less_Suc_eq_le[symmetric])
  have d: "drop (length m) (replicate (length m + Suc k) (0::byte)) = replicate (Suc k) 0"
    by (simp only: drop_replicate add_diff_cancel_left')
  show ?thesis
    unfolding e k_def[symmetric] d by (simp add: list_update_append)
qed

lemma pad_unaligned:
  assumes "\<not> (0 < length m \<and> 16 dvd length m)" and "length k2 = 16"
  shows "pad m k1 k2 = xor_last_block (m @ 0x80 # replicate (15 - length m mod 16) 0) k2"
proof -
  have c: "\<not> (length m \<noteq> 0 \<and> length m mod blockLength = 0)"
    using assms by (auto simp: blockLength_def mod_eq_0_iff_dvd)
  have "16 \<le> length (m @ 0x80 # replicate (15 - length m mod 16) (0::byte))"
    by simp
  then show ?thesis
    using c assms(2)
    by (simp only: pad_def Let_def if_False blockLength_def padded_eq rightXORMut_eq)
qed

lemma subarray_from_last:
  assumes "0 < n" and "n \<le> length xs"
  shows "subarray_from xs (- int n) = drop (length xs - n) xs"
  using assms by (simp add: subarray_from_def subarray_def Let_def nat_diff_distrib')

lemma cbc_last_block:
  assumes "\<And>x. length (E x) = 16" and "bs \<noteq> []"
  shows "subarray_from (concat (cbc_chain E c bs)) (- 16) = cbc_mac E c bs"
  using assms(2)
proof (induction bs arbitrary: c)
  case Nil
  then show ?case by simp
next
  case (Cons m ms)
  show ?case
  proof (cases ms)
    case Nil
    then show ?thesis
      using assms(1) by (simp add: subarray_from_def subarray_def Let_def)
  next
    case (Cons m' ms')
    then have "16 \<le> length (concat (cbc_chain E (E (xor_block c m)) ms))"
      using assms(1) by (simp add: Let_def)
    then have "subarray_from (concat (cbc_chain E c (m # ms))) (- 16) =
               subarray_from (concat (cbc_chain E (E (xor_block c m)) ms)) (- 16)"
      using assms(1) subarray_from_last[of 16 "concat (cbc_chain E c (m # ms))"]
        subarray_from_last[of 16 "concat (cbc_chain E (E (xor_block c m)) ms)"]
      by (simp add: Let_def)
    then show ?thesis
      using Cons.IH[of "E (xor_block c m)"] Cons by simp
  qed
qed

lemma blocks_single: "length x = 16 \<Longrightarrow> blocks x = [x]"
  by (simp add: blocks.simps[of x] blocks.simps[of "[]"] blockLength_def)

lemma blocks_nonempty: "16 \<le> length x \<Longrightarrow> blocks x \<noteq> []"
  by (simp add: blocks.simps[of x] blockLength_def)

lemma CBC_zeroBlock:
  "CBC E zeroBlock = E (replicate 16 0)"
  by (simp add: CBC_def zeroBlock_def blockLength_def blocks_single xor_block_def
      map2_map_map[symmetric] zip_replicate map_replicate_const)

text \<open>
  Claim C4. For every block cipher with 16-byte blocks and every doubling that keeps the
  block length, \<open>CMAC\<close> as the code computes it (the CBC ciphertext of the padded
  message, of which the last 16 bytes are kept) is the OMAC1 tag of the reference
  definition: \<open>L = E(0^n)\<close>, \<open>K1 = double L\<close>, \<open>K2 = double K1\<close>; \<open>K1\<close> is XORed
  into the last block of a message whose length is a positive multiple of 16, any other
  message (the empty one included) is padded with the byte \<open>0x80\<close> and zero bytes to
  the block boundary and \<open>K2\<close> is XORed into its last block; the tag is the last
  chaining value of the zero-IV CBC-MAC.
\<close>

theorem CMAC_is_omac1:
  assumes "\<And>x. length (E x) = 16" and "\<And>x. length (double x) = length x"
  shows "CMAC E double m = omac1 E double m"
proof -
  let ?k1 = "double (E (replicate 16 0))"
  let ?k2 = "double ?k1"
  let ?m' = "if 0 < length m \<and> 16 dvd length m
             then xor_last_block m ?k1
             else xor_last_block (m @ 0x80 # replicate (15 - length m mod 16) 0) ?k2"
  have k: "length ?k1 = 16" "length ?k2 = 16"
    using assms by simp_all
  have p: "pad m ?k1 ?k2 = ?m'"
    using k by (simp add: pad_aligned pad_unaligned)
  have "16 \<le> length ?m'"
    using k by (auto simp: xor_last_block_def xor_block_def dvd_imp_le)
  then have "blocks ?m' \<noteq> []"
    by (rule blocks_nonempty)
  then have "subarray_from (CBC E ?m') (- 16) = cbc_mac E (replicate 16 0) (blocks ?m')"
    unfolding CBC_def zeroBlock_def blockLength_def
    using assms(1) by (intro cbc_last_block)
  then show ?thesis
    by (simp add: CMAC_def omac1_def Let_def CBC_zeroBlock p blockLength_def)
qed

theorem CMAC_is_omac1_witness:
  "(\<forall>x. length (sample_cipher x) = 16) \<and> (\<forall>x. length (gf_double x) = length x) \<and>
   CMAC sample_cipher gf_double [1, 2, 3] = omac1 sample_cipher gf_double [1, 2, 3]"
proof -
  have a: "\<And>x. length (sample_cipher x) = 16"
    by (simp add: sample_cipher_def min_def)
  have b: "\<And>x. length (gf_double x) = length x"
    by (simp add: gf_double_def)
  show ?thesis
    using CMAC_is_omac1[of sample_cipher gf_double "[1, 2, 3]", OF a b] a b by simp
qed

section \<open>The session key size is checked first\<close>

text \<open>
  Claim C3. When the cipher table knows the algorithm and the key's length is not the
  expected key size, \<open>encrypt\<close> and \<open>decrypt\<close> throw the session-key-size error and
  leave the packet as it was, \<open>encrypted\<close> included. The result is the same for every
  environment with that cipher table and for every packet: no other collaborator and no
  field of the packet takes part in it.
\<close>

theorem key_size_checked_first:
  assumes "getCipherParams env (Val sessionKeyAlgorithm) = Inr cp"
    and "length key \<noteq> keySize cp"
  shows "encrypt env cfg sessionKeyAlgorithm key this = (Some UnexpectedSessionKeySize, this) \<and>
         decrypt env cfg sessionKeyAlgorithm key this = (Some UnexpectedSessionKeySize, this)"
  using assms by (simp add: encrypt_def decrypt_def)

theorem key_size_checked_first_witness:
  "encrypt sample_env sample_config 7 [1, 2, 3]
     (constructor\<lparr>version := Val 2, packets := Val [4, 5]\<rparr>) =
     (Some UnexpectedSessionKeySize, constructor\<lparr>version := Val 2, packets := Val [4, 5]\<rparr>) \<and>
   decrypt sample_env sample_config 7 [1, 2, 3]
     (constructor\<lparr>version := Val 2, packets := Val [4, 5]\<rparr>) =
     (Some UnexpectedSessionKeySize, constructor\<lparr>version := Val 2, packets := Val [4, 5]\<rparr>)"
  using key_size_checked_first[of sample_env 7 "\<lparr>blockSize = 16, keySize = 16\<rparr>" "[1, 2, 3]"
      sample_config "constructor\<lparr>version := Val 2, packets := Val [4, 5]\<rparr>"]
  by (simp add: sample_env_def)

section \<open>The packet type is checked first\<close>

text \<open>
  Claim C10. For a packet that is not a version-2 SEIPD packet and whose constructor's
  tag is not that of the AEAD-encrypted-data packet, \<open>runAEAD\<close> throws
  \<open>Unexpected packet type\<close>, whatever the mode table, the cipher table, HKDF and the
  data are: nothing is derived and nothing is encrypted. A version-1 SEIPD packet is
  such a packet when the two tags of the enum differ.
\<close>

theorem runAEAD_unexpected_packet:
  assumes "\<forall>p. packet = SEIPD p \<longrightarrow> version p \<noteq> Val 2"
    and "packet_tag env packet \<noteq> enums_packet_aeadEncryptedData env"
  shows "aead_setup env packet fn key = Inl UnexpectedPacketType \<and>
         runAEAD env packet fn key data = Inl UnexpectedPacketType"
  using assms by (auto simp: runAEAD_def aead_setup_def split: packet.splits)

theorem runAEAD_unexpected_packet_witness:
  "runAEAD sample_env (SEIPD (constructor\<lparr>version := Val 1\<rparr>)) Decrypt sample_key (array [1, 2]) =
     Inl UnexpectedPacketType"
  using runAEAD_unexpected_packet[of "SEIPD (constructor\<lparr>version := Val 1\<rparr>)" sample_env
      Decrypt sample_key "array [1, 2]"]
  by (simp add: sample_env_def packet_tag_def constructor_def)

section \<open>The loop of the AEAD engine\<close>

lemma length_int32_bytes [simp]: "length (int32_bytes v) = 4"
  by (simp add: int32_bytes_def Let_def)

lemma int32_bytes_0 [simp]: "int32_bytes 0 = [0, 0, 0, 0]"
  by (simp add: int32_bytes_def)

lemma int32_bytes_wrap: "int32_bytes (v + 2 ^ 32) = int32_bytes v"
proof -
  have "(word_of_int (v + 2 ^ 32) :: 32 word) = word_of_int v"
    by (simp add: word_of_int_eq_iff take_bit_eq_mod)
  then show ?thesis
    unfolding int32_bytes_def by (simp only:)
qed

lemma byte_of_word:
  "unat (ucast (drop_bit k (w :: 32 word)) :: 8 word) = (unat w div 2 ^ k) mod 256"
proof -
  have "unat (ucast (drop_bit k w) :: 8 word) = take_bit 8 (unat (drop_bit k w))"
    by (simp add: unsigned_ucast_eq)
  also have "\<dots> = take_bit 8 (drop_bit k (unat w))"
    by (simp only: unat_drop_bit_eq)
  finally show ?thesis
    by (simp add: take_bit_eq_mod drop_bit_eq_div)
qed

lemma recompose:
  fixes n :: nat
  assumes "n < 2 ^ 32"
  shows "256 * (256 * (256 * (n div 2 ^ 24 mod 256) + n div 2 ^ 16 mod 256) + n div 2 ^ 8 mod 256)
          + n mod 256 = n"
proof -
  define q1 where "q1 = n div 256"
  define q2 where "q2 = q1 div 256"
  define q3 where "q3 = q2 div 256"
  have e1: "n div 2 ^ 8 = q1"
    by (simp add: q1_def)
  have e2: "n div 2 ^ 16 = q2"
    using div_mult2_eq[of n 256 256] by (simp add: q1_def q2_def)
  have e3: "n div 2 ^ 24 = q3"
    using div_mult2_eq[of n 65536 256] e2 by (simp add: q3_def)
  have "q3 < 256"
    using assms unfolding e3[symmetric] by (simp add: less_mult_imp_div_less)
  then have m3: "q3 mod 256 = q3"
    by simp
  have d1: "n = 256 * q1 + n mod 256"
    by (simp add: q1_def)
  have d2: "q1 = 256 * q2 + q1 mod 256"
    by (simp add: q2_def)
  have d3: "q2 = 256 * q3 + q2 mod 256"
    by (simp add: q3_def)
  show ?thesis
    unfolding e1 e2 e3 m3 using d1 d2 d3 by simp
qed

lemma uint32_of_int32_bytes:
  assumes "0 \<le> v" and "v < 2 ^ 32"
  shows "uint32_of (int32_bytes v) = nat v"
proof -
  define n where "n = nat v"
  have w: "unat (word_of_int v :: 32 word) = n"
    using assms by (simp add: n_def unat_eq_nat_uint uint_word_of_int take_bit_eq_mod)
  have n: "n < 2 ^ 32"
    using assms by (simp add: n_def nat_less_iff)
  have u: "unat (ucast (word_of_int v :: 32 word) :: 8 word) = n mod 256"
    using byte_of_word[of 0 "word_of_int v"] w by simp
  have "uint32_of (int32_bytes v) =
          256 * (256 * (256 * (n div 2 ^ 24 mod 256) + n div 2 ^ 16 mod 256)
            + n div 2 ^ 8 mod 256) + n mod 256"
    unfolding uint32_of_def int32_bytes_def Let_def foldl.simps byte_of_word u w by simp
  then show ?thesis
    using recompose[OF n] by (simp only: n_def)
qed

lemma setInt32_tail:
  assumes "length b = 4"
  shows "setInt32 (a @ b) (int (length (a @ b)) - 4) v = Inr (a @ int32_bytes v)"
  using assms by (simp add: setInt32_def)

lemma step_Next:
  assumes "aead_step cfg st = Next call st'"
  shows "\<not> c_final call"
    and "c_nonce call = (if isSEIPDv2 cfg then iv st
                         else aeadp_nonce (iv st) (chunkIndexArray (adataBuffer st)))"
    and "c_adata call = take (5 + chunkIndexSizeIfAEADEP cfg) (adataBuffer st)"
    and "chunkIndex st' = Suc (chunkIndex st)"
    and "cryptedBytes st' =
           cryptedBytes st + (int (length (c_chunk call)) - int (tagLengthIfDecrypting cfg))"
    and "source_failure st' = source_failure st"
    and "isSEIPDv2 cfg \<Longrightarrow> adataBuffer st' = adataBuffer st"
    and "isSEIPDv2 cfg \<Longrightarrow>
           setInt32 (iv st) (int (length (iv st)) - 4) (int (chunkIndex st) + 1) = Inr (iv st')"
    and "\<not> isSEIPDv2 cfg \<Longrightarrow> iv st' = iv st"
    and "\<not> isSEIPDv2 cfg \<Longrightarrow>
           setInt32 (adataBuffer st) 9 (int (chunkIndex st) + 1) = Inr (adataBuffer st')"
  using assms
  by (auto simp: aead_step_def Let_def split: sum.splits if_splits prod.splits)

lemma step_Last:
  assumes "aead_step cfg st = Last calls e"
  shows "(calls = [] \<and> e \<noteq> None) \<or>
         (\<exists>c. calls = [c] \<and> \<not> c_final c \<and> e = Some RangeError \<and>
              c_nonce c = (if isSEIPDv2 cfg then iv st
                           else aeadp_nonce (iv st) (chunkIndexArray (adataBuffer st))) \<and>
              c_adata c = take (5 + chunkIndexSizeIfAEADEP cfg) (adataBuffer st)) \<or>
         (\<exists>c ab. calls = [c] \<and> c_final c \<and> e = None \<and>
              c_nonce c = (if isSEIPDv2 cfg then iv st
                           else aeadp_nonce (iv st) (chunkIndexArray (adataBuffer st))) \<and>
              c_adata c = ab \<and>
              setInt32 (adataBuffer st) (5 + int (chunkIndexSizeIfAEADEP cfg) + 4)
                (cryptedBytes st) = Inr ab)"
  using assms
  by (auto simp: aead_step_def Let_def setInt32_def split: sum.splits if_splits prod.splits)

lemma loop_Next:
  "aead_step cfg st = Next call st' \<Longrightarrow>
     aead_loop cfg st = (call # fst (aead_loop cfg st'), snd (aead_loop cfg st'))"
  by (simp add: aead_loop.simps[of cfg st])

lemma loop_Last:
  "aead_step cfg st = Last calls e \<Longrightarrow> aead_loop cfg st = (calls, e)"
  by (simp add: aead_loop.simps[of cfg st])

lemma loop_nonce_v2:
  "isSEIPDv2 cfg \<Longrightarrow> iv st = base @ int32_bytes (int (chunkIndex st)) \<Longrightarrow>
   k < length (fst (aead_loop cfg st)) \<Longrightarrow>
   c_nonce (fst (aead_loop cfg st) ! k) = base @ int32_bytes (int (chunkIndex st + k))"
proof (induction cfg st arbitrary: k rule: aead_loop.induct)
  case (1 cfg st)
  note v2 = "1.prems"(1)
  show ?case
  proof (cases "aead_step cfg st")
    case (Next call st')
    note n = step_Next[OF Next]
    show ?thesis
    proof (cases k)
      case 0
      then show ?thesis
        using Next n(2) v2 "1.prems"(2) by (simp add: loop_Next)
    next
      case (Suc j)
      have "setInt32 (base @ int32_bytes (int (chunkIndex st)))
              (int (length (base @ int32_bytes (int (chunkIndex st)))) - 4)
              (int (chunkIndex st) + 1) = Inr (base @ int32_bytes (int (chunkIndex st) + 1))"
        by (rule setInt32_tail) simp
      then have iv': "iv st' = base @ int32_bytes (int (chunkIndex st'))"
        using n(8)[OF v2] n(4) "1.prems"(2) by (simp add: add.commute)
      have "j < length (fst (aead_loop cfg st'))"
        using "1.prems"(3) Suc Next by (simp add: loop_Next)
      from "1.IH"(1)[OF Next v2 iv' this] show ?thesis
        using Suc Next n(4) by (simp add: loop_Next)
    qed
  next
    case (Last calls e)
    then show ?thesis
      using step_Last[OF Last] "1.prems" by (auto simp: loop_Last)
  qed
qed

lemma subarray_whole [simp]: "subarray xs 0 (int (length xs)) = xs"
  by (simp add: subarray_def)

lemma subarray_from_end [simp]: "subarray_from xs (int (length xs)) = []"
  by (simp add: subarray_from_def subarray_def)

lemma subarray_prefix:
  "subarray (c @ t) 0 (int (length c + length t) - int (length t)) = c"
  by (simp add: subarray_def)

lemma subarray_from_suffix:
  "subarray_from (c @ t) (int (length c + length t) - int (length t)) = t"
  by (simp add: subarray_from_def subarray_def)

lemma setInt32_last4:
  assumes "4 \<le> length v"
  shows "setInt32 v (int (length v) - 4) x = Inr (take (length v - 4) v @ int32_bytes x)"
  using assms by (simp add: setInt32_def nat_diff_distrib' of_nat_diff)

lemma setInt32_at9:
  assumes "length b = 13"
  shows "setInt32 b 9 x = Inr (take 9 b @ int32_bytes x)"
  using assms by (simp add: setInt32_def)

lemma enc_step_data:
  assumes "isSEIPDv2 cfg" and "tagLengthIfDecrypting cfg = 0" and "chunkSize cfg = Some n"
    and "source_failure st = None" and "4 \<le> length (iv st)"
    and "chunkIndex st = 0 \<or> take n (reader st) \<noteq> []"
  shows "aead_step cfg st =
           Next \<lparr>c_final = False, c_chunk = take n (reader st), c_nonce = iv st,
                 c_adata = take (5 + chunkIndexSizeIfAEADEP cfg) (adataBuffer st)\<rparr>
             (st\<lparr>reader := drop n (reader st),
                 cryptedBytes := cryptedBytes st + int (length (take n (reader st))),
                 chunkIndex := chunkIndex st + 1,
                 iv := take (length (iv st) - 4) (iv st) @ int32_bytes (int (chunkIndex st) + 1)\<rparr>)"
proof -
  have r: "read_chunk (Some n) (reader st) None = Inr (take n (reader st), drop n (reader st))"
    by (simp add: read_chunk_def)
  show ?thesis
    using assms r by (auto simp add: aead_step_def Let_def setInt32_last4)
qed

lemma enc_step_final:
  assumes "isSEIPDv2 cfg" and "tagLengthIfDecrypting cfg = 0" and "chunkSize cfg = Some n"
    and "source_failure st = None" and "chunkIndexSizeIfAEADEP cfg = 0"
    and "length (adataBuffer st) = 13"
    and "chunkIndex st \<noteq> 0" and "take n (reader st) = []"
  shows "aead_step cfg st =
           Last [\<lparr>c_final = True, c_chunk = [], c_nonce = iv st,
                   c_adata = take 9 (adataBuffer st) @ int32_bytes (cryptedBytes st)\<rparr>] None"
proof -
  have r: "read_chunk (Some n) (reader st) None = Inr (take n (reader st), drop n (reader st))"
    by (simp add: read_chunk_def)
  show ?thesis
    using assms r by (simp add: aead_step_def Let_def setInt32_at9)
qed

lemma dec_read:
  assumes "tg \<le> length R" and "length c \<le> n + tg" and "length c = n + tg \<or> length R = tg"
  shows "read_chunk (Some (n + tg + tg)) (c @ R) None = Inr (c @ take tg R, drop tg R)"
  using assms by (auto simp: read_chunk_def)

lemma dec_step_data:
  assumes "isSEIPDv2 cfg" and "tagLengthIfDecrypting cfg = tg" and "chunkSize cfg = Some (n + tg)"
    and "source_failure st = None" and "4 \<le> length (iv st)"
    and "reader st = c @ R"
    and "tg \<le> length R" and "length c \<le> n + tg" and "length c = n + tg \<or> length R = tg"
    and "chunkIndex st = 0 \<or> c \<noteq> []"
  shows "aead_step cfg st =
           Next \<lparr>c_final = False, c_chunk = c, c_nonce = iv st,
                 c_adata = take (5 + chunkIndexSizeIfAEADEP cfg) (adataBuffer st)\<rparr>
             (st\<lparr>reader := R,
                 cryptedBytes := cryptedBytes st + (int (length c) - int tg),
                 chunkIndex := chunkIndex st + 1,
                 iv := take (length (iv st) - 4) (iv st) @ int32_bytes (int (chunkIndex st) + 1)\<rparr>)"
proof -
  have l: "length (c @ take tg R) = length c + tg"
    using assms(7) by simp
  have a: "subarray (c @ take tg R) 0 (int (length (c @ take tg R)) - int tg) = c"
    using assms(7) by (simp add: subarray_def min_def)
  have b: "subarray_from (c @ take tg R) (int (length (c @ take tg R)) - int tg) = take tg R"
    using assms(7) by (simp add: subarray_from_def subarray_def min_def)
  show ?thesis
    using assms(1-6,10) dec_read[OF assms(7-9)]
    by (simp add: aead_step_def Let_def a b setInt32_last4 del: length_append)
qed

lemma dec_step_final:
  assumes "isSEIPDv2 cfg" and "tagLengthIfDecrypting cfg = tg" and "chunkSize cfg = Some (n + tg)"
    and "source_failure st = None" and "chunkIndexSizeIfAEADEP cfg = 0"
    and "length (adataBuffer st) = 13"
    and "reader st = R" and "length R = tg"
    and "chunkIndex st \<noteq> 0"
  shows "aead_step cfg st =
           Last [\<lparr>c_final = True, c_chunk = R, c_nonce = iv st,
                   c_adata = take 9 (adataBuffer st) @ int32_bytes (cryptedBytes st)\<rparr>] None"
proof -
  have r: "read_chunk (Some (n + tg + tg)) R None = Inr (R, [])"
    using assms(8) by (auto simp add: read_chunk_def)
  have a: "subarray R 0 (int (length R) - int tg) = []"
    using assms(8) by (simp add: subarray_def)
  have b: "subarray_from R (int (length R) - int tg) = R"
    using assms(8) by (simp add: subarray_from_def subarray_def)
  show ?thesis
    using assms(1-7,9) r by (simp add: aead_step_def Let_def a b setInt32_at9)
qed

lemma sink_Inr [simp]: "sink (map Inr outs) e = (concat outs, e)"
  by (induction outs) simp_all

lemma length_fill0 [simp]: "length (fill0 a s) = length a"
proof -
  define k where "k = (if s < 0 then max (int (length a) + s) 0 else min s (int (length a)))"
  have "0 \<le> k" "k \<le> int (length a)"
    by (auto simp: k_def)
  then have "min (length a) (nat k) + nat (int (length a) - k) = length a"
    by linarith
  then show ?thesis
    by (simp add: fill0_def Let_def k_def[symmetric])
qed

lemma fill0_tail:
  assumes "8 \<le> length a"
  shows "fill0 a (int (length a) - 8) = take (length a - 8) a @ replicate 8 0"
  using assms by (simp add: fill0_def Let_def nat_diff_distrib' of_nat_diff)

lemma take_fill0_tail:
  assumes "8 \<le> length a"
  shows "take (length a - 8) (fill0 a (int (length a) - 8)) = take (length a - 8) a"
  using assms by (simp add: fill0_tail)

lemma length_adata_header [simp]: "length (adata_header env packet) = 5"
  by (simp add: adata_header_def)

lemma setup_facts:
  assumes "aead_setup env packet fn key = Inr (cfg, st0, inst)"
  shows "chunkIndex st0 = 0" and "cryptedBytes st0 = 0"
    and "take 5 (adataBuffer st0) = adata_header env packet"
    and "isSEIPDv2 cfg \<Longrightarrow> chunkIndexSizeIfAEADEP cfg = 0"
    and "isSEIPDv2 cfg \<Longrightarrow> adataBuffer st0 = adata_header env packet @ replicate 8 0"
    and "isSEIPDv2 cfg \<Longrightarrow> \<exists>a. iv st0 = fill0 a (int (length a) - 8)"
    and "\<not> isSEIPDv2 cfg \<Longrightarrow> chunkIndexSizeIfAEADEP cfg = 8"
    and "\<not> isSEIPDv2 cfg \<Longrightarrow> adataBuffer st0 = adata_header env packet @ replicate 16 0"
  using assms
  by (auto simp: aead_setup_def Let_def derive_key_iv_def
      split: if_splits sum.splits packet.splits prod.splits)

lemma setup_v2:
  assumes "version p = Val 2" and "getAEADMode env (aeadAlgorithm p) False = Inr mode"
    and "getCipherParams env (cipherAlgorithm p) = Inr cp"
  shows "aead_setup env (SEIPD p) fn key =
           Inr (\<lparr>isSEIPDv2 = True,
                 chunkSize = map_option (\<lambda>n. n + (if fn = Decrypt then tagLength mode else 0))
                               (chunk_bytes (chunkSizeByte p)),
                 tagLengthIfDecrypting = (if fn = Decrypt then tagLength mode else 0),
                 chunkIndexSizeIfAEADEP = 0\<rparr>,
                \<lparr>chunkIndex = 0, cryptedBytes = 0,
                 iv = snd (derive_key_iv env key p (adata_header env (SEIPD p))
                             (keySize cp) (ivLength mode)),
                 adataBuffer = adata_header env (SEIPD p) @ replicate 8 0,
                 reader = [], source_failure = None\<rparr>,
                instantiate mode (cipherAlgorithm p)
                  (fst (derive_key_iv env key p (adata_header env (SEIPD p))
                          (keySize cp) (ivLength mode))))"
  using assms
  by (simp add: aead_setup_def packet_aeadAlgorithm_def packet_chunkSizeByte_def split_beta
      Let_def)

lemma derive_iv_length:
  assumes "hkdf_contract env"
  shows "length (snd (derive_key_iv env key p info k l)) = l"
  using assms
  by (simp add: derive_key_iv_def hkdf_contract_def Let_def subarray_from_def subarray_def)

lemma step_Last_ok:
  assumes "aead_step cfg st = Last calls e" and "isSEIPDv2 cfg"
    and "chunkIndexSizeIfAEADEP cfg = 0" and "source_failure st = None"
    and "4 \<le> length (iv st)" and "length (adataBuffer st) = 13"
  shows "e = None \<and>
         (\<exists>fc. calls = [\<lparr>c_final = True, c_chunk = fc, c_nonce = iv st,
                 c_adata = take 9 (adataBuffer st) @ int32_bytes (cryptedBytes st)\<rparr>])"
proof -
  have "read_chunk n (reader st) None \<noteq> Inl x" for n x
    by (simp add: read_chunk_def split: option.splits)
  then show ?thesis
    using assms
    by (auto simp: aead_step_def Let_def setInt32_last4 setInt32_at9
        split: sum.splits if_splits prod.splits)
qed

lemma setInt32_length:
  assumes "setInt32 v off x = Inr v'"
  shows "length v' = length v"
proof -
  have o: "0 \<le> off" "off + 4 \<le> int (length v)"
    and v': "v' = take (nat off) v @ int32_bytes x @ drop (nat off + 4) v"
    using assms by (auto simp: setInt32_def split: if_splits)
  have "nat off + 4 \<le> length v"
    using o by linarith
  then show ?thesis
    unfolding v' by simp
qed

lemma step_Next_iv_length:
  assumes "aead_step cfg st = Next call st'" and "isSEIPDv2 cfg"
  shows "length (iv st') = length (iv st)"
  using step_Next(8)[OF assms] by (rule setInt32_length)

lemma loop_v2_final:
  "isSEIPDv2 cfg \<Longrightarrow> chunkIndexSizeIfAEADEP cfg = 0 \<Longrightarrow> source_failure st = None \<Longrightarrow>
   4 \<le> length (iv st) \<Longrightarrow> length (adataBuffer st) = 13 \<Longrightarrow>
   \<exists>calls. aead_loop cfg st = (calls, None) \<and> calls \<noteq> [] \<and> c_final (last calls) \<and>
      list_all (\<lambda>c. \<not> c_final c \<and> c_adata c = take 5 (adataBuffer st)) (butlast calls) \<and>
      c_adata (last calls) =
        take 9 (adataBuffer st) @
        int32_bytes (cryptedBytes st +
          (\<Sum>c\<leftarrow>butlast calls. int (length (c_chunk c)) - int (tagLengthIfDecrypting cfg)))"
proof (induction cfg st rule: aead_loop.induct)
  case (1 cfg st)
  show ?case
  proof (cases "aead_step cfg st")
    case (Next call st')
    note n = step_Next[OF Next]
    have pre: "source_failure st' = None" "4 \<le> length (iv st')" "length (adataBuffer st') = 13"
      using n(6) n(7)[OF "1.prems"(1)] step_Next_iv_length[OF Next "1.prems"(1)] "1.prems"
      by simp_all
    obtain calls where
      ih: "aead_loop cfg st' = (calls, None)" "calls \<noteq> []" "c_final (last calls)"
        "list_all (\<lambda>c. \<not> c_final c \<and> c_adata c = take 5 (adataBuffer st')) (butlast calls)"
        "c_adata (last calls) =
           take 9 (adataBuffer st') @
           int32_bytes (cryptedBytes st' +
             (\<Sum>c\<leftarrow>butlast calls. int (length (c_chunk c)) - int (tagLengthIfDecrypting cfg)))"
      using "1.IH"(1)[OF Next "1.prems"(1,2) pre] by blast
    have "aead_loop cfg st = (call # calls, None)"
      using loop_Next[OF Next] ih(1) by simp
    moreover have "c_adata (last (call # calls)) =
        take 9 (adataBuffer st) @
        int32_bytes (cryptedBytes st +
          (\<Sum>c\<leftarrow>butlast (call # calls).
              int (length (c_chunk c)) - int (tagLengthIfDecrypting cfg)))"
      using ih(2,5) n(5) n(7)[OF "1.prems"(1)] by (simp add: algebra_simps)
    moreover have "list_all (\<lambda>c. \<not> c_final c \<and> c_adata c = take 5 (adataBuffer st))
                     (butlast (call # calls))"
      using ih(2,4) n(1,3) n(7)[OF "1.prems"(1)] "1.prems"(2) by simp
    ultimately show ?thesis
      using ih(2,3) by auto
  next
    case (Last calls e)
    from step_Last_ok[OF Last "1.prems"] show ?thesis
      using loop_Last[OF Last] by auto
  qed
qed

lemma step_tl0:
  assumes "tagLengthIfDecrypting cfg = 0" and "chunkSize cfg \<noteq> Some 0"
  shows "aead_step cfg st = Next call st' \<Longrightarrow> c_chunk call @ reader st' = reader st"
    and "aead_step cfg st = Last [c] None \<Longrightarrow> c_chunk c = [] \<and> reader st = []"
  using assms
  by (auto simp: aead_step_def Let_def read_chunk_def
      split: sum.splits if_splits prod.splits option.splits)

lemma loop_tl0_concat:
  "tagLengthIfDecrypting cfg = 0 \<Longrightarrow> chunkSize cfg \<noteq> Some 0 \<Longrightarrow>
   aead_loop cfg st = (calls, None) \<Longrightarrow>
   calls \<noteq> [] \<and> c_chunk (last calls) = [] \<and> concat (map c_chunk calls) = reader st"
proof (induction cfg st arbitrary: calls rule: aead_loop.induct)
  case (1 cfg st)
  show ?case
  proof (cases "aead_step cfg st")
    case (Next call st')
    then have l: "aead_loop cfg st' = (fst (aead_loop cfg st'), None)"
      and c: "calls = call # fst (aead_loop cfg st')"
      using "1.prems"(3) by (simp_all add: loop_Next prod_eq_iff)
    from "1.IH"(1)[OF Next "1.prems"(1,2) l] show ?thesis
      using c step_tl0(1)[OF "1.prems"(1,2) Next] by simp
  next
    case (Last cs e)
    then have e: "cs = calls" "e = None"
      using "1.prems"(3) by (simp_all add: loop_Last)
    from step_Last[OF Last] show ?thesis
      using e step_tl0(2)[OF "1.prems"(1,2), of st] Last by auto
  qed
qed

lemma sum_butlast:
  "calls \<noteq> [] \<Longrightarrow> (\<Sum>c\<leftarrow>calls. f c) = (\<Sum>c\<leftarrow>butlast calls. f c) + (f (last calls) :: int)"
  using sum_list_append[of "map f (butlast calls)" "[f (last calls)]"]
  by (metis (no_types, lifting) append_butlast_last_id list.simps(8,9) map_append sum_list.Cons
      sum_list.Nil add.right_neutral)

lemma sum_chunks:
  "(\<Sum>c\<leftarrow>calls. int (length (c_chunk c))) = int (length (concat (map c_chunk calls)))"
  by (induction calls) simp_all

lemma v2_start:
  assumes "version p = Val 2" and "getAEADMode env (aeadAlgorithm p) False = Inr mode"
    and "getCipherParams env (cipherAlgorithm p) = Inr cp"
    and "hkdf_contract env"
  obtains cfg st0 inst where
    "aead_setup env (SEIPD p) fn key = Inr (cfg, st0, inst)"
    "isSEIPDv2 cfg" "chunkIndexSizeIfAEADEP cfg = 0"
    "tagLengthIfDecrypting cfg = (if fn = Decrypt then tagLength mode else 0)"
    "chunkSize cfg = map_option (\<lambda>n. n + (if fn = Decrypt then tagLength mode else 0))
                       (chunk_bytes (chunkSizeByte p))"
    "chunkIndex st0 = 0" "cryptedBytes st0 = 0" "length (iv st0) = ivLength mode"
    "adataBuffer st0 = adata_header env (SEIPD p) @ replicate 8 0"
    "inst = instantiate mode (cipherAlgorithm p)
              (fst (derive_key_iv env key p (adata_header env (SEIPD p))
                      (keySize cp) (ivLength mode)))"
    "iv st0 = snd (derive_key_iv env key p (adata_header env (SEIPD p))
                      (keySize cp) (ivLength mode))"
proof -
  note s = setup_v2[OF assms(1-3), of fn key]
  show ?thesis
    by (rule that[OF s]) (simp_all add: derive_iv_length[OF assms(4)])
qed

lemma sample_facts:
  "version sample_packet = Val 2"
  "chunkSizeByte sample_packet = Val 0"
  "getAEADMode sample_env (aeadAlgorithm sample_packet) False = Inr sample_mode"
  "getCipherParams sample_env (cipherAlgorithm sample_packet) = Inr \<lparr>blockSize = 16, keySize = 16\<rparr>"
  "getCipherParams sample_env (Val 7) = Inr \<lparr>blockSize = 16, keySize = 16\<rparr>"
  "hkdf_contract sample_env"
  "4 \<le> ivLength sample_mode"
  "tagLength sample_mode = 2"
  by (simp_all add: sample_packet_def sample_env_def sample_mode_def constructor_def
      hkdf_contract_def)

lemma sample_aead_contract: "aead_contract sample_mode"
proof -
  have m: "map (\<lambda>b. b - s) (map (\<lambda>b. b + s) p) = p" for s :: byte and p
    by (induction p) simp_all
  show ?thesis
    by (simp add: aead_contract_def sample_mode_def sample_instance_def Let_def
        sample_tag_def m comp_def)
qed

section \<open>The final chunk\<close>

text \<open>
  Claim C5. In every run of the engine on a version-2 packet whose source ends cleanly
  (the derived IV having the four bytes the counter needs), encrypting or decrypting,
  the loop makes its calls without an exception, the last call is the one for the final
  chunk and the only one, the calls before it take the five header bytes as associated
  data, and the final call takes the header, four zero bytes and the four big-endian
  bytes of the byte count: the sum, over the data chunks, of the chunk's length less the
  tag length when decrypting. When encrypting that sum is the length of the plaintext.
  The count is written modulo \<open>2^32\<close>, as a four-byte field is: read back, the
  field is the plaintext length whenever that is below \<open>2^32\<close>.
\<close>

theorem final_chunk_binds_length:
  assumes "version p = Val 2" and "getAEADMode env (aeadAlgorithm p) False = Inr mode"
    and "getCipherParams env (cipherAlgorithm p) = Inr cp"
    and "hkdf_contract env" and "4 \<le> ivLength mode" and "failure data = None"
  shows "\<exists>cfg st0 inst calls.
           aead_setup env (SEIPD p) fn key = Inr (cfg, st0, inst) \<and>
           aead_loop cfg (st0\<lparr>reader := content data, source_failure := failure data\<rparr>) =
             (calls, None) \<and>
           calls \<noteq> [] \<and> c_final (last calls) \<and>
           list_all (\<lambda>c. \<not> c_final c \<and> c_adata c = adata_header env (SEIPD p)) (butlast calls) \<and>
           c_adata (last calls) =
             adata_header env (SEIPD p) @ [0, 0, 0, 0] @
             int32_bytes (\<Sum>c\<leftarrow>butlast calls.
                int (length (c_chunk c)) - int (tagLengthIfDecrypting cfg)) \<and>
           (fn = Encrypt \<longrightarrow>
              (\<Sum>c\<leftarrow>butlast calls. int (length (c_chunk c)) - int (tagLengthIfDecrypting cfg)) =
                int (length (content data))) \<and>
           (fn = Encrypt \<and> length (content data) < 2 ^ 32 \<longrightarrow>
              uint32_of (drop 9 (c_adata (last calls))) = length (content data))"
proof -
  obtain cfg st0 inst where
    s: "aead_setup env (SEIPD p) fn key = Inr (cfg, st0, inst)"
      and c: "isSEIPDv2 cfg" "chunkIndexSizeIfAEADEP cfg = 0"
        "tagLengthIfDecrypting cfg = (if fn = Decrypt then tagLength mode else 0)"
        "chunkSize cfg = map_option (\<lambda>n. n + (if fn = Decrypt then tagLength mode else 0))
                       (chunk_bytes (chunkSizeByte p))"
      and st: "chunkIndex st0 = 0" "cryptedBytes st0 = 0" "length (iv st0) = ivLength mode"
        "adataBuffer st0 = adata_header env (SEIPD p) @ replicate 8 0"
    using v2_start[OF assms(1-4), of fn key] by metis
  let ?st = "st0\<lparr>reader := content data, source_failure := failure data\<rparr>"
  obtain calls where
    l: "aead_loop cfg ?st = (calls, None)" "calls \<noteq> []" "c_final (last calls)"
      "list_all (\<lambda>c. \<not> c_final c \<and> c_adata c = take 5 (adataBuffer ?st)) (butlast calls)"
      "c_adata (last calls) =
         take 9 (adataBuffer ?st) @
         int32_bytes (cryptedBytes ?st +
           (\<Sum>c\<leftarrow>butlast calls. int (length (c_chunk c)) - int (tagLengthIfDecrypting cfg)))"
    using loop_v2_final[OF c(1,2), of ?st] assms(5,6) st by auto
  have hdr: "take 5 (adataBuffer ?st) = adata_header env (SEIPD p)"
    "take 9 (adataBuffer ?st) = adata_header env (SEIPD p) @ [0, 0, 0, 0]"
    using st(4) by (simp_all add: numeral_eq_Suc)
  have enc: "(\<Sum>c\<leftarrow>butlast calls. int (length (c_chunk c)) - int (tagLengthIfDecrypting cfg)) =
               int (length (content data))" if "fn = Encrypt"
  proof -
    have t0: "tagLengthIfDecrypting cfg = 0" and n0: "chunkSize cfg \<noteq> Some 0"
      using c(3,4) that by (auto simp: chunk_bytes_def split: jsval.splits)
    have cat: "c_chunk (last calls) = []" "concat (map c_chunk calls) = content data"
      using loop_tl0_concat[OF t0 n0 l(1)] by simp_all
    have "(\<Sum>c\<leftarrow>butlast calls. int (length (c_chunk c))) =
            (\<Sum>c\<leftarrow>calls. int (length (c_chunk c)))"
      using sum_butlast[OF l(2), of "\<lambda>c. int (length (c_chunk c))"] cat(1) by simp
    then show ?thesis
      using cat(2) t0 by (simp add: sum_chunks)
  qed
  have rb: "uint32_of (drop 9 (c_adata (last calls))) = length (content data)"
    if "fn = Encrypt" "length (content data) < 2 ^ 32"
  proof -
    have "c_adata (last calls) =
            adata_header env (SEIPD p) @ [0, 0, 0, 0] @ int32_bytes (int (length (content data)))"
      using l(5)[unfolded hdr] st(2) enc[OF that(1)] by simp
    then have "drop 9 (c_adata (last calls)) = int32_bytes (int (length (content data)))"
      by simp
    then show ?thesis
      using uint32_of_int32_bytes[of "int (length (content data))"] that(2) by simp
  qed
  let ?total = "\<Sum>c\<leftarrow>butlast calls. int (length (c_chunk c)) - int (tagLengthIfDecrypting cfg)"
  show ?thesis
  proof (intro exI conjI)
    show "aead_setup env (SEIPD p) fn key = Inr (cfg, st0, inst)"
      by (rule s)
    show "aead_loop cfg ?st = (calls, None)"
      by (rule l(1))
    show "calls \<noteq> []"
      by (rule l(2))
    show "c_final (last calls)"
      by (rule l(3))
    show "list_all (\<lambda>c. \<not> c_final c \<and> c_adata c = adata_header env (SEIPD p)) (butlast calls)"
      using l(4) unfolding hdr .
    show "c_adata (last calls) = adata_header env (SEIPD p) @ [0, 0, 0, 0] @ int32_bytes ?total"
      using l(5) st(2) unfolding hdr by simp
    show "fn = Encrypt \<longrightarrow> ?total = int (length (content data))"
      using enc by blast
    show "fn = Encrypt \<and> length (content data) < 2 ^ 32 \<longrightarrow>
            uint32_of (drop 9 (c_adata (last calls))) = length (content data)"
      using rb by blast
  qed
qed

theorem final_chunk_binds_length_witness:
  "\<exists>cfg st0 inst calls.
     aead_setup sample_env (SEIPD sample_packet) Encrypt sample_key = Inr (cfg, st0, inst) \<and>
     aead_loop cfg (st0\<lparr>reader := content (array [1, 2, 3]),
                        source_failure := failure (array [1, 2, 3])\<rparr>) = (calls, None) \<and>
     calls \<noteq> [] \<and> c_final (last calls) \<and>
     list_all (\<lambda>c. \<not> c_final c \<and> c_adata c = adata_header sample_env (SEIPD sample_packet))
       (butlast calls) \<and>
     c_adata (last calls) =
       adata_header sample_env (SEIPD sample_packet) @ [0, 0, 0, 0] @
       int32_bytes (\<Sum>c\<leftarrow>butlast calls.
          int (length (c_chunk c)) - int (tagLengthIfDecrypting cfg)) \<and>
     (\<Sum>c\<leftarrow>butlast calls. int (length (c_chunk c)) - int (tagLengthIfDecrypting cfg)) = 3 \<and>
     uint32_of (drop 9 (c_adata (last calls))) = 3"
  using final_chunk_binds_length[OF sample_facts(1,3,4,6,7), of "array [1, 2, 3]" Encrypt sample_key]
  by (simp add: array_def numeral_3_eq_3)

section \<open>Chunk counting\<close>

lemma sink_lengths:
  assumes "\<And>c. \<exists>out. crypt inst fn c = Inr out \<and> length out = length (c_chunk c) + T"
  shows "\<exists>outs. map (crypt inst fn) calls = map Inr outs \<and>
                map length outs = map (\<lambda>c. length (c_chunk c) + T) calls"
proof (induction calls)
  case Nil
  then show ?case by simp
next
  case (Cons c calls)
  then obtain outs where o: "map (crypt inst fn) calls = map Inr outs"
    "map length outs = map (\<lambda>c. length (c_chunk c) + T) calls"
    by blast
  obtain out where "crypt inst fn c = Inr out" "length out = length (c_chunk c) + T"
    using assms by blast
  then have "map (crypt inst fn) (c # calls) = map Inr (out # outs) \<and>
             map length (out # outs) = map (\<lambda>c. length (c_chunk c) + T) (c # calls)"
    using o by simp
  then show ?case by blast
qed

lemma enc_loop_data:
  assumes "isSEIPDv2 cfg" and "tagLengthIfDecrypting cfg = 0" and "chunkSize cfg = Some n"
    and "source_failure st = None" and "4 \<le> length (iv st)"
    and "chunkIndex st = 0 \<or> take n (reader st) \<noteq> []"
    and "aead_loop cfg
           (st\<lparr>reader := drop n (reader st),
               cryptedBytes := cryptedBytes st + int (length (take n (reader st))),
               chunkIndex := chunkIndex st + 1,
               iv := take (length (iv st) - 4) (iv st) @ int32_bytes (int (chunkIndex st) + 1)\<rparr>)
         = (calls, e)"
  shows "aead_loop cfg st =
           (\<lparr>c_final = False, c_chunk = take n (reader st), c_nonce = iv st,
             c_adata = take (5 + chunkIndexSizeIfAEADEP cfg) (adataBuffer st)\<rparr> # calls, e)"
  using loop_Next[OF enc_step_data[OF assms(1-6)]] assms(7) by simp

lemma enc_200_calls:
  assumes "version p = Val 2" and "chunkSizeByte p = Val 0"
    and "getAEADMode env (aeadAlgorithm p) False = Inr mode"
    and "getCipherParams env (cipherAlgorithm p) = Inr cp"
    and "hkdf_contract env" and "4 \<le> ivLength mode"
    and "failure data = None" and "length (content data) = 200"
  shows "\<exists>cfg st0 calls.
           aead_setup env (SEIPD p) Encrypt key =
             Inr (cfg, st0, instantiate mode (cipherAlgorithm p)
                    (fst (derive_key_iv env key p (adata_header env (SEIPD p))
                            (keySize cp) (ivLength mode)))) \<and>
           isSEIPDv2 cfg \<and> length (iv st0) = ivLength mode \<and>
           aead_loop cfg (st0\<lparr>reader := content data, source_failure := failure data\<rparr>) =
             (calls, None) \<and>
           map (\<lambda>c. length (c_chunk c)) calls = [64, 64, 64, 8, 0] \<and>
           map c_final calls = [False, False, False, False, True]"
proof -
  obtain cfg st0 inst where
    s: "aead_setup env (SEIPD p) Encrypt key = Inr (cfg, st0, inst)"
      and c: "isSEIPDv2 cfg" "chunkIndexSizeIfAEADEP cfg = 0"
        "tagLengthIfDecrypting cfg = (if Encrypt = Decrypt then tagLength mode else 0)"
        "chunkSize cfg = map_option (\<lambda>n. n + (if Encrypt = Decrypt then tagLength mode else 0))
                       (chunk_bytes (chunkSizeByte p))"
      and st: "chunkIndex st0 = 0" "cryptedBytes st0 = 0" "length (iv st0) = ivLength mode"
        "adataBuffer st0 = adata_header env (SEIPD p) @ replicate 8 0"
      and i: "inst = instantiate mode (cipherAlgorithm p)
              (fst (derive_key_iv env key p (adata_header env (SEIPD p))
                      (keySize cp) (ivLength mode)))"
    using v2_start[OF assms(1,3,4,5), of Encrypt key] by metis
  have t0: "tagLengthIfDecrypting cfg = 0" and n: "chunkSize cfg = Some 64"
    using c(3,4) assms(2) by (simp_all add: chunk_bytes_def)
  define d where "d = content data"
  have ld: "length d = 200"
    using assms(8) by (simp add: d_def)
  define adv where "adv st = st\<lparr>reader := drop 64 (reader st),
               cryptedBytes := cryptedBytes st + int (length (take 64 (reader st))),
               chunkIndex := chunkIndex st + 1,
               iv := take (length (iv st) - 4) (iv st) @ int32_bytes (int (chunkIndex st) + 1)\<rparr>"
    for st :: aead_state
  define mk where "mk st = \<lparr>c_final = False, c_chunk = take 64 (reader st), c_nonce = iv st,
             c_adata = take (5 + chunkIndexSizeIfAEADEP cfg) (adataBuffer st)\<rparr>"
    for st :: aead_state
  define s0 where "s0 = st0\<lparr>reader := d, source_failure := None\<rparr>"
  define s1 where "s1 = adv s0"
  define s2 where "s2 = adv s1"
  define s3 where "s3 = adv s2"
  define s4 where "s4 = adv s3"
  have adv_keep: "source_failure (adv st) = source_failure st"
    "adataBuffer (adv st) = adataBuffer st"
    "4 \<le> length (iv st) \<Longrightarrow> length (iv (adv st)) = length (iv st)"
    "reader (adv st) = drop 64 (reader st)"
    "chunkIndex (adv st) = Suc (chunkIndex st)" for st
    by (simp_all add: adv_def)
  have iv4: "4 \<le> length (iv s0)"
    using st(3) assms(6) by (simp add: s0_def)
  have sf: "source_failure s0 = None" "source_failure s1 = None" "source_failure s2 = None"
    "source_failure s3 = None" "source_failure s4 = None"
    by (simp_all add: s4_def s3_def s2_def s1_def adv_keep) (simp add: s0_def)+
  have ivl: "4 \<le> length (iv s1)" "4 \<le> length (iv s2)" "4 \<le> length (iv s3)"
    "4 \<le> length (iv s4)"
    using iv4 by (simp_all add: s4_def s3_def s2_def s1_def adv_keep)
  have rd: "reader s0 = d" "reader s1 = drop 64 d" "reader s2 = drop 128 d"
    "reader s3 = drop 192 d" "reader s4 = drop 256 d"
    by (simp_all add: s4_def s3_def s2_def s1_def adv_keep) (simp add: s0_def)+
  have ci: "chunkIndex s4 \<noteq> 0"
    by (simp add: s4_def adv_keep)
  have ab: "length (adataBuffer s4) = 13"
    using st(4) by (simp add: s4_def s3_def s2_def s1_def adv_keep s0_def)
  let ?fin = "\<lparr>c_final = True, c_chunk = [], c_nonce = iv s4,
               c_adata = take 9 (adataBuffer s4) @ int32_bytes (cryptedBytes s4)\<rparr>"
  have l4: "aead_loop cfg s4 = ([?fin], None)"
    using ci ld by (intro loop_Last enc_step_final[OF c(1) t0 n sf(5) c(2) ab]) (simp_all add: rd)
  have l3: "aead_loop cfg s3 = (mk s3 # [?fin], None)"
    unfolding mk_def[of s3]
    using ld l4 by (intro enc_loop_data[OF c(1) t0 n sf(4) ivl(3)])
      (simp_all add: rd s4_def adv_def)
  have l2: "aead_loop cfg s2 = (mk s2 # mk s3 # [?fin], None)"
    unfolding mk_def[of s2]
    using ld l3 by (intro enc_loop_data[OF c(1) t0 n sf(3) ivl(2)])
      (simp_all add: rd s3_def adv_def)
  have l1: "aead_loop cfg s1 = (mk s1 # mk s2 # mk s3 # [?fin], None)"
    unfolding mk_def[of s1]
    using ld l2 by (intro enc_loop_data[OF c(1) t0 n sf(2) ivl(1)])
      (simp_all add: rd s2_def adv_def)
  have l0: "aead_loop cfg s0 = (mk s0 # mk s1 # mk s2 # mk s3 # [?fin], None)"
    unfolding mk_def[of s0]
    using ld l1 by (intro enc_loop_data[OF c(1) t0 n sf(1) iv4])
      (auto simp add: rd s1_def adv_def)
  let ?calls = "mk s0 # mk s1 # mk s2 # mk s3 # [?fin]"
  have lens: "map (\<lambda>c. length (c_chunk c)) ?calls = [64, 64, 64, 8, 0]"
    using ld by (simp add: mk_def rd)
  have fins: "map c_final ?calls = [False, False, False, False, True]"
    by (simp add: mk_def)
  have s0': "st0\<lparr>reader := content data, source_failure := failure data\<rparr> = s0"
    using assms(7) by (simp add: s0_def d_def)
  show ?thesis
  proof (intro exI conjI)
    show "aead_setup env (SEIPD p) Encrypt key =
             Inr (cfg, st0, instantiate mode (cipherAlgorithm p)
                    (fst (derive_key_iv env key p (adata_header env (SEIPD p))
                            (keySize cp) (ivLength mode))))"
      using s i by simp
    show "isSEIPDv2 cfg" by (rule c(1))
    show "length (iv st0) = ivLength mode" by (rule st(3))
    show "aead_loop cfg (st0\<lparr>reader := content data, source_failure := failure data\<rparr>) =
            (?calls, None)"
      unfolding s0' by (rule l0)
    show "map (\<lambda>c. length (c_chunk c)) ?calls = [64, 64, 64, 8, 0]"
      by (rule lens)
    show "map c_final ?calls = [False, False, False, False, True]"
      by (rule fins)
  qed
qed

text \<open>
  Claim C6. Encrypting 200 bytes under a version-2 packet with chunk-size byte 0 makes
  five calls of the AEAD primitive: four data chunks of 64, 64, 64 and 8 plaintext bytes
  and the final chunk with none. With a mode whose \<open>encrypt\<close> appends its tag, the
  five results have 64, 64, 64, 8 and 0 bytes plus the tag each, and the ciphertext, their
  concatenation, has \<open>200 + 5 * tagLength\<close> bytes.
\<close>

theorem chunk_counting_200:
  assumes "version p = Val 2" and "chunkSizeByte p = Val 0"
    and "getAEADMode env (aeadAlgorithm p) False = Inr mode"
    and "getCipherParams env (cipherAlgorithm p) = Inr cp"
    and "hkdf_contract env" and "4 \<le> ivLength mode" and "aead_contract mode"
    and "failure data = None" and "length (content data) = 200"
  shows "\<exists>cfg st0 inst calls outs out.
           aead_setup env (SEIPD p) Encrypt key = Inr (cfg, st0, inst) \<and>
           aead_loop cfg (st0\<lparr>reader := content data, source_failure := failure data\<rparr>) =
             (calls, None) \<and>
           map (\<lambda>c. length (c_chunk c)) calls = [64, 64, 64, 8, 0] \<and>
           map c_final calls = [False, False, False, False, True] \<and>
           map (crypt inst Encrypt) calls = map Inr outs \<and>
           map length outs =
             [64 + tagLength mode, 64 + tagLength mode, 64 + tagLength mode,
              8 + tagLength mode, tagLength mode] \<and>
           runAEAD env (SEIPD p) Encrypt key data = Inr out \<and>
           content out = concat outs \<and> failure out = None \<and>
           length (content out) = 200 + 5 * tagLength mode"
proof -
  let ?inst = "instantiate mode (cipherAlgorithm p)
                 (fst (derive_key_iv env key p (adata_header env (SEIPD p))
                         (keySize cp) (ivLength mode)))"
  obtain cfg st0 calls where
    s: "aead_setup env (SEIPD p) Encrypt key = Inr (cfg, st0, ?inst)"
    and l0: "aead_loop cfg (st0\<lparr>reader := content data, source_failure := failure data\<rparr>) =
               (calls, None)"
    and lens: "map (\<lambda>c. length (c_chunk c)) calls = [64, 64, 64, 8, 0]"
    and fins: "map c_final calls = [False, False, False, False, True]"
    using enc_200_calls[OF assms(1-6,8,9), of key] by (elim exE conjE) (rule that)
  have "\<exists>out. crypt ?inst Encrypt c = Inr out \<and>
              length out = length (c_chunk c) + tagLength mode" for c
    using assms(7) unfolding aead_contract_def crypt_def by (simp, blast)
  from sink_lengths[of ?inst Encrypt "tagLength mode" calls, OF this]
  obtain outs where o: "map (crypt ?inst Encrypt) calls = map Inr outs"
    "map length outs = map (\<lambda>c. length (c_chunk c) + tagLength mode) calls"
    by blast
  have "map (\<lambda>c. length (c_chunk c) + tagLength mode) calls =
          map (\<lambda>n. n + tagLength mode) (map (\<lambda>c. length (c_chunk c)) calls)"
    by simp
  then have lo: "map length outs =
             [64 + tagLength mode, 64 + tagLength mode, 64 + tagLength mode,
              8 + tagLength mode, tagLength mode]"
    unfolding o(2) lens by simp
  have "length (concat outs) = sum_list (map length outs)"
    by (simp add: length_concat)
  then have tot: "length (concat outs) = 200 + 5 * tagLength mode"
    unfolding lo by simp
  have run: "runAEAD env (SEIPD p) Encrypt key data =
               Inr \<lparr>kind = (if kind data = KStream then KStream else KArrayStream),
                    content = concat outs, failure = None\<rparr>"
    by (simp add: runAEAD_def s l0 o(1))
  show ?thesis
  proof (intro exI conjI)
    show "aead_setup env (SEIPD p) Encrypt key = Inr (cfg, st0, ?inst)"
      by (rule s)
    show "aead_loop cfg (st0\<lparr>reader := content data, source_failure := failure data\<rparr>) =
            (calls, None)"
      by (rule l0)
    show "map (\<lambda>c. length (c_chunk c)) calls = [64, 64, 64, 8, 0]"
      by (rule lens)
    show "map c_final calls = [False, False, False, False, True]"
      by (rule fins)
    show "map (crypt ?inst Encrypt) calls = map Inr outs"
      by (rule o(1))
    show "map length outs =
            [64 + tagLength mode, 64 + tagLength mode, 64 + tagLength mode,
             8 + tagLength mode, tagLength mode]"
      by (rule lo)
    show "runAEAD env (SEIPD p) Encrypt key data =
               Inr \<lparr>kind = (if kind data = KStream then KStream else KArrayStream),
                    content = concat outs, failure = None\<rparr>"
      by (rule run)
    show "content \<lparr>kind = (if kind data = KStream then KStream else KArrayStream),
                    content = concat outs, failure = None\<rparr> = concat outs"
      by simp
    show "failure \<lparr>kind = (if kind data = KStream then KStream else KArrayStream),
                    content = concat outs, failure = None\<rparr> = None"
      by simp
    show "length (content \<lparr>kind = (if kind data = KStream then KStream else KArrayStream),
                    content = concat outs, failure = None\<rparr>) = 200 + 5 * tagLength mode"
      using tot by simp
  qed
qed

theorem chunk_counting_200_witness:
  "\<exists>cfg st0 inst calls outs out.
     aead_setup sample_env (SEIPD sample_packet) Encrypt sample_key = Inr (cfg, st0, inst) \<and>
     aead_loop cfg (st0\<lparr>reader := content (array (replicate 200 7)),
                        source_failure := failure (array (replicate 200 7))\<rparr>) =
       (calls, None) \<and>
     map (\<lambda>c. length (c_chunk c)) calls = [64, 64, 64, 8, 0] \<and>
     map c_final calls = [False, False, False, False, True] \<and>
     map (crypt inst Encrypt) calls = map Inr outs \<and>
     map length outs = [66, 66, 66, 10, 2] \<and>
     runAEAD sample_env (SEIPD sample_packet) Encrypt sample_key (array (replicate 200 7)) =
       Inr out \<and>
     content out = concat outs \<and> failure out = None \<and> length (content out) = 210"
  using chunk_counting_200[OF sample_facts(1,2,3,4,6,7) sample_aead_contract,
      of "array (replicate 200 7)" sample_key]
  by (simp add: array_def sample_facts(8))

section \<open>The chunk counter\<close>

lemma setInt32_counter:
  assumes "length hdr = 5" and "length t8 = 8"
  shows "setInt32 (hdr @ [0, 0, 0, 0] @ int32_bytes x @ t8) 9 v =
           Inr (hdr @ [0, 0, 0, 0] @ int32_bytes v @ t8)"
  using assms by (simp add: setInt32_def)

lemma loop_counter_aeadp:
  "\<not> isSEIPDv2 cfg \<Longrightarrow> chunkIndexSizeIfAEADEP cfg = 8 \<Longrightarrow> length hdr = 5 \<Longrightarrow>
   length t8 = 8 \<Longrightarrow>
   adataBuffer st = hdr @ [0, 0, 0, 0] @ int32_bytes (int (chunkIndex st)) @ t8 \<Longrightarrow>
   k < length (fst (aead_loop cfg st)) \<Longrightarrow>
   take 13 (c_adata (fst (aead_loop cfg st) ! k)) =
     hdr @ [0, 0, 0, 0] @ int32_bytes (int (chunkIndex st + k)) \<and>
   c_nonce (fst (aead_loop cfg st) ! k) =
     aeadp_nonce (iv st) ([0, 0, 0, 0] @ int32_bytes (int (chunkIndex st + k)))"
proof (induction cfg st arbitrary: k rule: aead_loop.induct)
  case (1 cfg st)
  note p = "1.prems"
  have cia: "chunkIndexArray (adataBuffer st) = [0, 0, 0, 0] @ int32_bytes (int (chunkIndex st))"
    using p(3,4,5) by (simp add: chunkIndexArray_def)
  have t13: "take 13 (adataBuffer st) = hdr @ [0, 0, 0, 0] @ int32_bytes (int (chunkIndex st))"
    using p(3,4,5) by simp
  show ?case
  proof (cases "aead_step cfg st")
    case (Next call st')
    note n = step_Next[OF Next]
    show ?thesis
    proof (cases k)
      case 0
      then show ?thesis
        using Next n(2,3) p(1,2,3) cia t13 by (simp add: loop_Next)
    next
      case (Suc j)
      have ab': "adataBuffer st' =
                   hdr @ [0, 0, 0, 0] @ int32_bytes (int (chunkIndex st')) @ t8"
        using n(10)[OF p(1)] n(4) setInt32_counter[OF p(3,4), of "int (chunkIndex st)"
            "int (chunkIndex st) + 1"] p(5)
        by (simp add: add.commute)
      have "j < length (fst (aead_loop cfg st'))"
        using p(6) Suc Next by (simp add: loop_Next)
      from "1.IH"(1)[OF Next p(1,2,3,4) ab' this] show ?thesis
        using Suc Next n(4) n(9)[OF p(1)] by (simp add: loop_Next)
    qed
  next
    case (Last calls e)
    have k0: "k = 0" and c1: "length calls = 1"
      using step_Last[OF Last] p(6) Last by (auto simp: loop_Last)
    from step_Last[OF Last] show ?thesis
    proof (elim disjE exE conjE)
      assume "calls = []"
      then show ?thesis using c1 by simp
    next
      fix c assume "calls = [c]" "c_nonce c = (if isSEIPDv2 cfg then iv st
                else aeadp_nonce (iv st) (chunkIndexArray (adataBuffer st)))"
        "c_adata c = take (5 + chunkIndexSizeIfAEADEP cfg) (adataBuffer st)"
      then show ?thesis
        using k0 p(1,2,3) cia t13 Last by (simp add: loop_Last)
    next
      fix c ab assume c: "calls = [c]" "c_nonce c = (if isSEIPDv2 cfg then iv st
                else aeadp_nonce (iv st) (chunkIndexArray (adataBuffer st)))"
        "c_adata c = ab"
        "setInt32 (adataBuffer st) (5 + int (chunkIndexSizeIfAEADEP cfg) + 4)
           (cryptedBytes st) = Inr ab"
      have "take 13 ab = take 13 (adataBuffer st)"
        using c(4) p(2) by (auto simp: setInt32_def split: if_splits)
      then show ?thesis
        using k0 p(1,3) cia t13 c(1,2,3) Last by (simp add: loop_Last)
    qed
  qed
qed

text \<open>
  Claim C7. The call for chunk \<open>k\<close> of a run (the final chunk included) sees the
  counter as four zero bytes followed by the 32-bit big-endian value of \<open>k\<close>: for
  SEIPD v2 these are the last eight bytes of the nonce, the derived IV keeping its other
  bytes; for the AEAD packet they are bytes 5 to 12 of the associated data, and the
  nonce is the static IV with these eight bytes XORed into its end. Only the low four
  bytes of the eight-byte field are ever written: they read back as \<open>k\<close> while
  \<open>k\<close> is below \<open>2^32\<close>, and the value written wraps, so that chunk
  \<open>k + 2^32\<close> would get the bytes of chunk \<open>k\<close>.
\<close>

theorem chunk_counter_is_32_bit:
  assumes "aead_setup env packet fn key = Inr (cfg, st0, inst)"
    and "aead_loop cfg (st0\<lparr>reader := content data, source_failure := failure data\<rparr>) =
           (calls, thrown)"
    and "k < length calls"
  shows "(isSEIPDv2 cfg \<and> 8 \<le> length (iv st0) \<longrightarrow>
            c_nonce (calls ! k) =
              take (length (iv st0) - 8) (iv st0) @ [0, 0, 0, 0] @ int32_bytes (int k)) \<and>
         (\<not> isSEIPDv2 cfg \<longrightarrow>
            take 13 (c_adata (calls ! k)) =
              adata_header env packet @ [0, 0, 0, 0] @ int32_bytes (int k) \<and>
            c_nonce (calls ! k) = aeadp_nonce (iv st0) ([0, 0, 0, 0] @ int32_bytes (int k))) \<and>
         (k < 2 ^ 32 \<longrightarrow> uint32_of (int32_bytes (int k)) = k) \<and>
         int32_bytes (int k + 2 ^ 32) = int32_bytes (int k)"
proof -
  note f = setup_facts[OF assms(1)]
  let ?st = "st0\<lparr>reader := content data, source_failure := failure data\<rparr>"
  have k: "k < length (fst (aead_loop cfg ?st))" and c: "calls = fst (aead_loop cfg ?st)"
    using assms(2,3) by simp_all
  have v2: "c_nonce (calls ! k) =
              take (length (iv st0) - 8) (iv st0) @ [0, 0, 0, 0] @ int32_bytes (int k)"
    if v: "isSEIPDv2 cfg" and l8: "8 \<le> length (iv st0)"
  proof -
    obtain a where a: "iv st0 = fill0 a (int (length a) - 8)"
      using f(6)[OF v] by blast
    have la: "8 \<le> length a"
      using l8 a by (metis length_fill0)
    have "iv st0 = take (length (iv st0) - 8) (iv st0) @ replicate 8 0"
      using a fill0_tail[OF la] by simp
    then have "iv ?st = (take (length (iv st0) - 8) (iv st0) @ [0, 0, 0, 0]) @
                 int32_bytes (int (chunkIndex ?st))"
      using f(1) by (simp add: numeral_eq_Suc)
    from loop_nonce_v2[OF v this k] show ?thesis
      using c f(1) by simp
  qed
  have ad: "take 13 (c_adata (calls ! k)) =
              adata_header env packet @ [0, 0, 0, 0] @ int32_bytes (int k) \<and>
            c_nonce (calls ! k) = aeadp_nonce (iv st0) ([0, 0, 0, 0] @ int32_bytes (int k))"
    if "\<not> isSEIPDv2 cfg"
  proof -
    have "adataBuffer ?st = adata_header env packet @ [0, 0, 0, 0] @
            int32_bytes (int (chunkIndex ?st)) @ replicate 8 0"
      using f(8)[OF that] f(1) by (simp add: numeral_eq_Suc)
    from loop_counter_aeadp[OF that f(7)[OF that] _ _ this k] show ?thesis
      using c f(1) by simp
  qed
  have rb: "uint32_of (int32_bytes (int k)) = k" if "k < 2 ^ 32"
    using uint32_of_int32_bytes[of "int k"] that by simp
  show ?thesis
    using v2 ad rb int32_bytes_wrap[of "int k"] by blast
qed

theorem chunk_counter_is_32_bit_witness:
  "\<exists>cfg st0 inst calls thrown.
     aead_setup sample_env (SEIPD sample_packet) Encrypt sample_key = Inr (cfg, st0, inst) \<and>
     aead_loop cfg (st0\<lparr>reader := content (array (replicate 200 7)),
                        source_failure := failure (array (replicate 200 7))\<rparr>) =
       (calls, thrown) \<and>
     3 < length calls \<and>
     c_nonce (calls ! 3) = take (length (iv st0) - 8) (iv st0) @ [0, 0, 0, 0, 0, 0, 0, 3] \<and>
     int32_bytes (3 + 2 ^ 32) = int32_bytes 3"
proof -
  have d: "failure (array (replicate 200 7)) = None"
    "length (content (array (replicate 200 7))) = 200"
    by (simp_all add: array_def)
  obtain cfg st0 inst calls where
    s: "aead_setup sample_env (SEIPD sample_packet) Encrypt sample_key = Inr (cfg, st0, inst)"
    and v: "isSEIPDv2 cfg" "length (iv st0) = ivLength sample_mode"
    and l: "aead_loop cfg (st0\<lparr>reader := content (array (replicate 200 7)),
                        source_failure := failure (array (replicate 200 7))\<rparr>) =
              (calls, None)"
    and n: "map (\<lambda>c. length (c_chunk c)) calls = [64, 64, 64, 8, 0]"
    using enc_200_calls[OF sample_facts(1,2,3,4,6,7) d, of sample_key]
    by (elim exE conjE) (rule that)
  have k: "3 < length calls"
    using arg_cong[OF n, of length] by simp
  have b: "int32_bytes 3 = [0, 0, 0, 3]"
    by (simp add: int32_bytes_def)
  have "8 \<le> length (iv st0)"
    using v(2) by (simp add: sample_mode_def)
  with chunk_counter_is_32_bit[OF s l k] v(1) b s l k show ?thesis
    by (intro exI conjI) (assumption | simp)+
qed

section \<open>The legacy path checks the digest\<close>

lemma subarray_from_neg_suffix:
  assumes "ys \<noteq> []"
  shows "subarray_from (xs @ ys) (- int (length ys)) = ys"
  using assms by (simp add: subarray_from_def subarray_def)

lemma subarray_neg_prefix:
  assumes "ys \<noteq> []"
  shows "subarray (xs @ ys) 0 (- int (length ys)) = xs"
  using assms by (simp add: subarray_def)

lemma subarray_from_skip:
  "subarray_from (xs @ ys) (int (length xs)) = ys"
  by (simp add: subarray_from_def subarray_def)

lemma materialize_kind:
  assumes "materialize d0 = Inr d"
  shows "kind d \<noteq> KArrayStream" and "failure d0 = None \<Longrightarrow> failure d = None"
    and "failure d0 = None \<Longrightarrow> content d = content d0"
  using assms
  by (auto simp: materialize_def isArrayStream_def streamReadToEnd_def array_def
      split: if_splits option.splits)

lemma decrypt_legacy:
  assumes "getCipherParams env (Val sessionKeyAlgorithm) = Inr cp"
    and "length key = keySize cp" and "version this \<noteq> Val 2"
    and "encrypted this = Val enc0" and "materialize enc0 = Inr enc" and "failure enc = None"
    and "decrypted = cfb_decrypt env sessionKeyAlgorithm key (content enc)
                       (replicate (blockSize cp) 0)"
    and "plain = subarray (subarray_from (subarray decrypted 0 (- 20))
                             (int (blockSize cp) + 2)) 0 (- 2)"
  shows "(\<not> (isStream enc \<and> allowUnauthenticatedStream cfg) \<longrightarrow>
            decrypt env cfg sessionKeyAlgorithm key this =
              (if computeDigest env (enums_hash_sha1 env) (subarray decrypted 0 (- 20)) =
                    subarray_from decrypted (- 20)
               then (case fromBinary env (array plain) False of
                       Inl e \<Rightarrow> (Some e, this)
                     | Inr pk \<Rightarrow> (None, this\<lparr>packets := Val pk\<rparr>))
               else (Some ModificationDetected, this))) \<and>
         (isStream enc \<and> allowUnauthenticatedStream cfg \<longrightarrow>
            decrypt env cfg sessionKeyAlgorithm key this =
              (case fromBinary env
                      \<lparr>kind = KStream, content = plain,
                       failure =
                         (if computeDigest env (enums_hash_sha1 env)
                               (subarray decrypted 0 (- 20)) = subarray_from decrypted (- 20)
                          then None else Some ModificationDetected)\<rparr> True of
                 Inl e \<Rightarrow> (Some e, this)
               | Inr pk \<Rightarrow> (None, this\<lparr>packets := Val pk\<rparr>)))"
proof -
  have k: "kind enc = KArray \<or> kind enc = KStream"
    using materialize_kind(1)[OF assms(5)] by (cases "kind enc") simp_all
  show ?thesis
    using assms(1-4,6) k unfolding assms(7,8)
    by (auto simp: decrypt_def assms(5) decrypt_cfb_def on_content_def Let_def isStream_def
        streamReadToEnd_def)
qed

text \<open>
  Claim C2. Decrypting a packet that is not version 2, with a key of the right size and
  a ciphertext whose source ends cleanly: the ciphertext is CFB-decrypted, the last 20
  bytes are the claimed digest, and the SHA-1 digest is recomputed over the bytes before
  them. Unless the ciphertext is a stream and the configuration allows unauthenticated
  streaming, \<open>decrypt\<close> throws \<open>Modification detected\<close> exactly when the two differ,
  and then the packet list parser is not called and the packet is left as it was; when
  they are equal the parser gets the bytes between the prefix and the two-byte marker.
  Under the relaxation the parser is called with \<open>delayErrors\<close> on a stream of those
  bytes that ends with the error when the digests differ.
\<close>

theorem legacy_decrypt_checks_digest:
  assumes "getCipherParams env (Val sessionKeyAlgorithm) = Inr cp"
    and "length key = keySize cp" and "version this \<noteq> Val 2"
    and "encrypted this = Val enc0" and "materialize enc0 = Inr enc" and "failure enc = None"
    and "decrypted = cfb_decrypt env sessionKeyAlgorithm key (content enc)
                       (replicate (blockSize cp) 0)"
    and "plain = subarray (subarray_from (subarray decrypted 0 (- 20))
                             (int (blockSize cp) + 2)) 0 (- 2)"
  shows "(\<not> (isStream enc \<and> allowUnauthenticatedStream cfg) \<longrightarrow>
            decrypt env cfg sessionKeyAlgorithm key this =
              (if computeDigest env (enums_hash_sha1 env) (subarray decrypted 0 (- 20)) =
                    subarray_from decrypted (- 20)
               then (case fromBinary env (array plain) False of
                       Inl e \<Rightarrow> (Some e, this)
                     | Inr pk \<Rightarrow> (None, this\<lparr>packets := Val pk\<rparr>))
               else (Some ModificationDetected, this))) \<and>
         (isStream enc \<and> allowUnauthenticatedStream cfg \<longrightarrow>
            decrypt env cfg sessionKeyAlgorithm key this =
              (case fromBinary env
                      \<lparr>kind = KStream, content = plain,
                       failure =
                         (if computeDigest env (enums_hash_sha1 env)
                               (subarray decrypted 0 (- 20)) = subarray_from decrypted (- 20)
                          then None else Some ModificationDetected)\<rparr> True of
                 Inl e \<Rightarrow> (Some e, this)
               | Inr pk \<Rightarrow> (None, this\<lparr>packets := Val pk\<rparr>)))"
  using assms by (rule decrypt_legacy)

theorem legacy_decrypt_checks_digest_witness:
  "decrypt sample_env sample_config 7 sample_key
     (constructor\<lparr>version := Val 1, encrypted := Val (array [1, 2, 3])\<rparr>) =
     (Some ModificationDetected, constructor\<lparr>version := Val 1, encrypted := Val (array [1, 2, 3])\<rparr>) \<and>
   decrypt sample_env (sample_config\<lparr>allowUnauthenticatedStream := True\<rparr>) 7 sample_key
     (constructor\<lparr>version := Val 1,
                  encrypted := Val \<lparr>kind = KStream, content = [1, 2, 3], failure = None\<rparr>\<rparr>) =
     (case fromBinary sample_env
             \<lparr>kind = KStream, content = [], failure = Some ModificationDetected\<rparr> True of
        Inl e \<Rightarrow> (Some e, constructor\<lparr>version := Val 1,
                  encrypted := Val \<lparr>kind = KStream, content = [1, 2, 3], failure = None\<rparr>\<rparr>)
      | Inr pk \<Rightarrow> (None, constructor\<lparr>version := Val 1,
                  encrypted := Val \<lparr>kind = KStream, content = [1, 2, 3], failure = None\<rparr>,
                  packets := Val pk\<rparr>))"
proof -
  let ?pkt = "constructor\<lparr>version := Val 1, encrypted := Val (array [1, 2, 3])\<rparr> :: bytes seipd"
  let ?s = "\<lparr>kind = KStream, content = [1, 2, 3], failure = None\<rparr> :: bdata"
  let ?spkt = "constructor\<lparr>version := Val 1, encrypted := Val ?s\<rparr> :: bytes seipd"
  let ?dec = "cfb_decrypt sample_env 7 sample_key [1, 2, 3]
                (replicate (blockSize \<lparr>blockSize = 16, keySize = 16\<rparr>) 0)"
  have m: "materialize (array [1, 2, 3]) = Inr (array [1, 2, 3])" "materialize ?s = Inr ?s"
    by (simp_all add: materialize_def isArrayStream_def array_def)
  have c: "content (array [1, 2, 3]) = [1, 2, 3]" "content ?s = [1, 2, 3]"
    by (simp_all add: array_def)
  have "length (computeDigest sample_env (enums_hash_sha1 sample_env) (subarray ?dec 0 (- 20))) \<noteq>
        length (subarray_from ?dec (- 20))"
    by (simp add: sample_env_def subarray_def subarray_from_def)
  then have d: "computeDigest sample_env (enums_hash_sha1 sample_env) (subarray ?dec 0 (- 20)) \<noteq>
                subarray_from ?dec (- 20)"
    by force
  have e: "subarray (subarray_from (subarray ?dec 0 (- 20))
             (int (blockSize \<lparr>blockSize = 16, keySize = 16\<rparr>) + 2)) 0 (- 2) = []"
    by (simp add: sample_env_def subarray_def subarray_from_def)
  have k: "length sample_key = keySize \<lparr>blockSize = 16, keySize = 16\<rparr>"
    by (simp add: sample_key_def)
  note a = legacy_decrypt_checks_digest[OF sample_facts(5) k _ _ m(1) _ refl refl,
        of ?pkt sample_config, unfolded c]
  note b = legacy_decrypt_checks_digest[OF sample_facts(5) k _ _ m(2) _ refl refl,
        of ?spkt "sample_config\<lparr>allowUnauthenticatedStream := True\<rparr>", unfolded c e]
  show ?thesis
    using a b d by (simp add: sample_config_def array_def isStream_def)
qed

section \<open>Round trip\<close>

lemma loop_roundtrip:
  assumes contract: "\<And>p nn a. \<exists>c. mi_encrypt inst p nn a = Inr c \<and> length c = length p + T \<and>
                                 mi_decrypt inst c nn a = Inr p"
  shows "isSEIPDv2 cE \<Longrightarrow> tagLengthIfDecrypting cE = 0 \<Longrightarrow> chunkSize cE = Some n \<Longrightarrow>
         chunkIndexSizeIfAEADEP cE = 0 \<Longrightarrow> 0 < n \<Longrightarrow>
         source_failure st = None \<Longrightarrow> 4 \<le> length (iv st) \<Longrightarrow> length (adataBuffer st) = 13 \<Longrightarrow>
         \<exists>calls outs calls'.
            aead_loop cE st = (calls, None) \<and>
            map (crypt inst Encrypt) calls = map Inr outs \<and>
            T \<le> length (concat outs) \<and>
            aead_loop (cE\<lparr>chunkSize := Some (n + T), tagLengthIfDecrypting := T\<rparr>)
              (st\<lparr>reader := concat outs\<rparr>) = (calls', None) \<and>
            map (crypt inst Decrypt) calls' = map (\<lambda>c. Inr (c_chunk c)) calls \<and>
            concat (map c_chunk calls) = reader st"
proof (induction cE st rule: aead_loop.induct)
  case (1 cE st)
  let ?cD = "cE\<lparr>chunkSize := Some (n + T), tagLengthIfDecrypting := T\<rparr>"
  have cD: "isSEIPDv2 ?cD" "tagLengthIfDecrypting ?cD = T" "chunkSize ?cD = Some (n + T)"
    "chunkIndexSizeIfAEADEP ?cD = 0"
    using "1.prems" by simp_all
  show ?case
  proof (cases "chunkIndex st = 0 \<or> take n (reader st) \<noteq> []")
    case True
    let ?chunk = "take n (reader st)"
    let ?call = "\<lparr>c_final = False, c_chunk = ?chunk, c_nonce = iv st,
                  c_adata = take (5 + chunkIndexSizeIfAEADEP cE) (adataBuffer st)\<rparr>"
    let ?iv' = "take (length (iv st) - 4) (iv st) @ int32_bytes (int (chunkIndex st) + 1)"
    let ?st' = "st\<lparr>reader := drop n (reader st),
                   cryptedBytes := cryptedBytes st + int (length ?chunk),
                   chunkIndex := chunkIndex st + 1, iv := ?iv'\<rparr>"
    have stepE: "aead_step cE st = Next ?call ?st'"
      using "1.prems" True by (intro enc_step_data) simp_all
    have pre': "source_failure ?st' = None" "4 \<le> length (iv ?st')"
      "length (adataBuffer ?st') = 13"
      using "1.prems" by simp_all
    obtain calls outs calls' where
      ih: "aead_loop cE ?st' = (calls, None)"
        "map (crypt inst Encrypt) calls = map Inr outs"
        "T \<le> length (concat outs)"
        "aead_loop ?cD (?st'\<lparr>reader := concat outs\<rparr>) = (calls', None)"
        "map (crypt inst Decrypt) calls' = map (\<lambda>c. Inr (c_chunk c)) calls"
        "concat (map c_chunk calls) = reader ?st'"
      using "1.IH"(1)[OF stepE "1.prems"(1-5) pre'] by blast
    obtain c where
      c: "mi_encrypt inst ?chunk (iv st) (take (5 + chunkIndexSizeIfAEADEP cE) (adataBuffer st)) = Inr c"
        "length c = length ?chunk + T"
        "mi_decrypt inst c (iv st) (take (5 + chunkIndexSizeIfAEADEP cE) (adataBuffer st)) = Inr ?chunk"
      using contract by blast
    let ?R = "concat outs"
    have short: "length ?R = T" if "length ?chunk \<noteq> n"
    proof -
      have rd: "reader ?st' = []"
        using that by (simp add: min_def split: if_splits)
      have "aead_step cE ?st' =
              Last [\<lparr>c_final = True, c_chunk = [], c_nonce = iv ?st',
                      c_adata = take 9 (adataBuffer ?st') @ int32_bytes (cryptedBytes ?st')\<rparr>] None"
        using "1.prems" pre' rd by (intro enc_step_final) simp_all
      then have "calls = [\<lparr>c_final = True, c_chunk = [], c_nonce = iv ?st',
                      c_adata = take 9 (adataBuffer ?st') @ int32_bytes (cryptedBytes ?st')\<rparr>]"
        using ih(1) by (simp add: loop_Last)
      then obtain o1 where o: "outs = [o1]" "mi_encrypt inst [] (iv ?st')
           (take 9 (adataBuffer ?st') @ int32_bytes (cryptedBytes ?st')) = Inr o1"
        using ih(2) by (cases outs) (auto simp: crypt_def)
      obtain c0 where "mi_encrypt inst [] (iv ?st')
           (take 9 (adataBuffer ?st') @ int32_bytes (cryptedBytes ?st')) = Inr c0"
          "length c0 = length ([] :: bytes) + T"
        using contract by blast
      then show ?thesis
        using o by simp
    qed
    let ?stD = "st\<lparr>reader := c @ ?R\<rparr>"
    have stepD: "aead_step ?cD ?stD =
           Next \<lparr>c_final = False, c_chunk = c, c_nonce = iv ?stD,
                 c_adata = take (5 + chunkIndexSizeIfAEADEP ?cD) (adataBuffer ?stD)\<rparr>
             (?stD\<lparr>reader := ?R,
                 cryptedBytes := cryptedBytes ?stD + (int (length c) - int T),
                 chunkIndex := chunkIndex ?stD + 1,
                 iv := take (length (iv ?stD) - 4) (iv ?stD) @
                       int32_bytes (int (chunkIndex ?stD) + 1)\<rparr>)"
    proof (rule dec_step_data[OF cD(1-3)])
      show "source_failure ?stD = None" "4 \<le> length (iv ?stD)"
        using "1.prems" by simp_all
      show "reader ?stD = c @ ?R" by simp
      show "T \<le> length ?R" by (rule ih(3))
      show "length c \<le> n + T" using c(2) by simp
      show "length c = n + T \<or> length ?R = T"
        using c(2) short by (cases "length ?chunk = n") simp_all
      show "chunkIndex ?stD = 0 \<or> c \<noteq> []"
        using True c(2) "1.prems"(5) by (auto simp: min_def split: if_splits)
    qed
    have same: "?stD\<lparr>reader := ?R,
                 cryptedBytes := cryptedBytes ?stD + (int (length c) - int T),
                 chunkIndex := chunkIndex ?stD + 1,
                 iv := take (length (iv ?stD) - 4) (iv ?stD) @
                       int32_bytes (int (chunkIndex ?stD) + 1)\<rparr> = ?st'\<lparr>reader := ?R\<rparr>"
      using c(2) by simp
    have loopD: "aead_loop ?cD ?stD =
            (\<lparr>c_final = False, c_chunk = c, c_nonce = iv st,
              c_adata = take (5 + chunkIndexSizeIfAEADEP cE) (adataBuffer st)\<rparr> # calls', None)"
      using loop_Next[OF stepD] ih(4) unfolding same by simp
    have loopE: "aead_loop cE st = (?call # calls, None)"
      using loop_Next[OF stepE] ih(1) by simp
    show ?thesis
    proof (intro exI conjI)
      show "aead_loop cE st = (?call # calls, None)" by (rule loopE)
      show "map (crypt inst Encrypt) (?call # calls) = map Inr (c # outs)"
        using c(1) ih(2) by (simp add: crypt_def)
      show "T \<le> length (concat (c # outs))"
        using ih(3) by simp
      show "aead_loop ?cD (st\<lparr>reader := concat (c # outs)\<rparr>) =
              (\<lparr>c_final = False, c_chunk = c, c_nonce = iv st,
                c_adata = take (5 + chunkIndexSizeIfAEADEP cE) (adataBuffer st)\<rparr> # calls', None)"
        using loopD by simp
      show "map (crypt inst Decrypt)
              (\<lparr>c_final = False, c_chunk = c, c_nonce = iv st,
                c_adata = take (5 + chunkIndexSizeIfAEADEP cE) (adataBuffer st)\<rparr> # calls') =
            map (\<lambda>c. Inr (c_chunk c)) (?call # calls)"
        using c(3) ih(5) by (simp add: crypt_def)
      show "concat (map c_chunk (?call # calls)) = reader st"
        using ih(6) by simp
    qed
  next
    case False
    then have ci: "chunkIndex st \<noteq> 0" and e: "take n (reader st) = []"
      by simp_all
    then have rd: "reader st = []"
      using "1.prems"(5) by simp
    let ?fin = "\<lparr>c_final = True, c_chunk = [], c_nonce = iv st,
                 c_adata = take 9 (adataBuffer st) @ int32_bytes (cryptedBytes st)\<rparr>"
    have stepE: "aead_step cE st = Last [?fin] None"
      using "1.prems" ci e by (intro enc_step_final) simp_all
    obtain tf where
      tf: "mi_encrypt inst [] (iv st) (take 9 (adataBuffer st) @ int32_bytes (cryptedBytes st)) = Inr tf"
        "length tf = length ([] :: bytes) + T"
        "mi_decrypt inst tf (iv st) (take 9 (adataBuffer st) @ int32_bytes (cryptedBytes st)) = Inr []"
      using contract by blast
    let ?stD = "st\<lparr>reader := tf\<rparr>"
    have stepD: "aead_step ?cD ?stD =
           Last [\<lparr>c_final = True, c_chunk = tf, c_nonce = iv ?stD,
                   c_adata = take 9 (adataBuffer ?stD) @ int32_bytes (cryptedBytes ?stD)\<rparr>] None"
      using "1.prems" ci tf(2) by (intro dec_step_final[OF cD(1-3)]) simp_all
    show ?thesis
    proof (intro exI conjI)
      show "aead_loop cE st = ([?fin], None)"
        using stepE by (rule loop_Last)
      show "map (crypt inst Encrypt) [?fin] = map Inr [tf]"
        using tf(1) by (simp add: crypt_def)
      show "T \<le> length (concat [tf])"
        using tf(2) by simp
      show "aead_loop ?cD (st\<lparr>reader := concat [tf]\<rparr>) =
              ([\<lparr>c_final = True, c_chunk = tf, c_nonce = iv st,
                 c_adata = take 9 (adataBuffer st) @ int32_bytes (cryptedBytes st)\<rparr>], None)"
        using loop_Last[OF stepD] by simp
      show "map (crypt inst Decrypt)
              [\<lparr>c_final = True, c_chunk = tf, c_nonce = iv st,
                 c_adata = take 9 (adataBuffer st) @ int32_bytes (cryptedBytes st)\<rparr>] =
            map (\<lambda>c. Inr (c_chunk c)) [?fin]"
        using tf(3) by (simp add: crypt_def)
      show "concat (map c_chunk [?fin]) = reader st"
        using rd by simp
    qed
  qed
qed

lemma setup_ignores_encrypted:
  "aead_setup env (SEIPD (p\<lparr>encrypted := e\<rparr>)) fn key = aead_setup env (SEIPD p) fn key"
  by (auto simp add: aead_setup_def packet_tag_def packet_aeadAlgorithm_def
      packet_chunkSizeByte_def adata_header_def packet_version_def packet_cipherAlgorithm_def
      derive_key_iv_def Let_def split: sum.splits)

lemma runAEAD_ignores_encrypted:
  "runAEAD env (SEIPD (p\<lparr>encrypted := e\<rparr>)) fn key d = runAEAD env (SEIPD p) fn key d"
  by (simp add: runAEAD_def setup_ignores_encrypted)

lemma runAEAD_roundtrip:
  assumes "version p = Val 2" and "chunkSizeByte p = Val c"
    and "getAEADMode env (aeadAlgorithm p) False = Inr mode"
    and "getCipherParams env (cipherAlgorithm p) = Inr cp"
    and "hkdf_contract env" and "4 \<le> ivLength mode" and "aead_contract mode"
    and "failure data = None"
  shows "\<exists>ct. runAEAD env (SEIPD p) Encrypt key data =
                 Inr \<lparr>kind = (if kind data = KStream then KStream else KArrayStream),
                      content = ct, failure = None\<rparr> \<and>
              (\<forall>d'. content d' = ct \<and> failure d' = None \<longrightarrow>
                 runAEAD env (SEIPD p) Decrypt key d' =
                   Inr \<lparr>kind = (if kind d' = KStream then KStream else KArrayStream),
                        content = content data, failure = None\<rparr>)"
proof -
  let ?ki = "derive_key_iv env key p (adata_header env (SEIPD p)) (keySize cp) (ivLength mode)"
  let ?inst = "instantiate mode (cipherAlgorithm p) (fst ?ki)"
  let ?cE = "\<lparr>isSEIPDv2 = True, chunkSize = Some (2 ^ (c + 6)), tagLengthIfDecrypting = 0,
              chunkIndexSizeIfAEADEP = 0\<rparr>"
  let ?cD = "\<lparr>isSEIPDv2 = True, chunkSize = Some (2 ^ (c + 6) + tagLength mode),
              tagLengthIfDecrypting = tagLength mode, chunkIndexSizeIfAEADEP = 0\<rparr>"
  let ?st0 = "\<lparr>chunkIndex = 0, cryptedBytes = 0, iv = snd ?ki,
               adataBuffer = adata_header env (SEIPD p) @ replicate 8 0,
               reader = [], source_failure = None\<rparr>"
  have sE: "aead_setup env (SEIPD p) Encrypt key = Inr (?cE, ?st0, ?inst)"
    using setup_v2[OF assms(1,3,4), of Encrypt key] assms(2) by (simp add: chunk_bytes_def)
  have sD: "aead_setup env (SEIPD p) Decrypt key = Inr (?cD, ?st0, ?inst)"
    using setup_v2[OF assms(1,3,4), of Decrypt key] assms(2) by (simp add: chunk_bytes_def)
  have contract: "\<exists>x. mi_encrypt ?inst pl nn a = Inr x \<and> length x = length pl + tagLength mode \<and>
                      mi_decrypt ?inst x nn a = Inr pl" for pl nn a
    using assms(7) unfolding aead_contract_def by blast
  let ?st = "\<lparr>chunkIndex = 0, cryptedBytes = 0, iv = snd ?ki,
              adataBuffer = adata_header env (SEIPD p) @ replicate 8 0,
              reader = content data, source_failure = None\<rparr>"
  have cD: "?cE\<lparr>chunkSize := Some (2 ^ (c + 6) + tagLength mode),
                tagLengthIfDecrypting := tagLength mode\<rparr> = ?cD"
    by simp
  have pre: "isSEIPDv2 ?cE" "tagLengthIfDecrypting ?cE = 0" "chunkSize ?cE = Some (2 ^ (c + 6))"
    "chunkIndexSizeIfAEADEP ?cE = 0" "0 < (2 :: nat) ^ (c + 6)" "source_failure ?st = None"
    "4 \<le> length (iv ?st)" "length (adataBuffer ?st) = 13"
    using assms(6) derive_iv_length[OF assms(5), of key p "adata_header env (SEIPD p)"
        "keySize cp" "ivLength mode"]
    by simp_all
  obtain calls outs calls' where
    r: "aead_loop ?cE ?st = (calls, None)"
      "map (crypt ?inst Encrypt) calls = map Inr outs"
      "aead_loop ?cD (?st\<lparr>reader := concat outs\<rparr>) = (calls', None)"
      "map (crypt ?inst Decrypt) calls' = map (\<lambda>c. Inr (c_chunk c)) calls"
      "concat (map c_chunk calls) = reader ?st"
    using loop_roundtrip[of ?inst "tagLength mode" ?cE "2 ^ (c + 6)" ?st, OF contract pre]
    unfolding cD by blast
  have stE: "\<lparr>chunkIndex = 0, cryptedBytes = 0, iv = snd ?ki,
              adataBuffer = adata_header env (SEIPD p) @ replicate 8 0,
              reader = [], source_failure = None\<rparr>
             \<lparr>reader := content data, source_failure := failure data\<rparr> = ?st"
    using assms(8) by simp
  have e: "runAEAD env (SEIPD p) Encrypt key data =
             Inr \<lparr>kind = (if kind data = KStream then KStream else KArrayStream),
                  content = concat outs, failure = None\<rparr>"
    unfolding runAEAD_def sE by (simp only: sum.case prod.case stE r(1,2) Let_def sink_Inr)
  have d: "runAEAD env (SEIPD p) Decrypt key d' =
             Inr \<lparr>kind = (if kind d' = KStream then KStream else KArrayStream),
                  content = content data, failure = None\<rparr>"
    if d': "content d' = concat outs" "failure d' = None" for d'
  proof -
    have "map (\<lambda>c. Inr (c_chunk c) :: error + bytes) calls = map Inr (map c_chunk calls)"
      by simp
    then have sk: "sink (map (crypt ?inst Decrypt) calls') None = (content data, None)"
      unfolding r(4) using r(5) by (simp only: sink_Inr) simp
    have stD: "\<lparr>chunkIndex = 0, cryptedBytes = 0, iv = snd ?ki,
              adataBuffer = adata_header env (SEIPD p) @ replicate 8 0,
              reader = [], source_failure = None\<rparr>
             \<lparr>reader := content d', source_failure := failure d'\<rparr> =
              ?st\<lparr>reader := concat outs\<rparr>"
      using d' by simp
    show ?thesis
      unfolding runAEAD_def sD by (simp only: sum.case prod.case stD r(3) Let_def sk)
  qed
  show ?thesis
    using e d by blast
qed

lemma materialize_clean:
  assumes "failure d = None"
  shows "\<exists>d'. materialize d = Inr d' \<and> content d' = content d \<and> failure d' = None \<and>
              kind d' \<noteq> KArrayStream \<and> (kind d \<noteq> KArrayStream \<longrightarrow> d' = d)"
  using assms
  by (auto simp: materialize_def isArrayStream_def streamReadToEnd_def array_def)

lemma roundtrip_v2:
  assumes cp: "getCipherParams env (Val alg) = Inr cp" and kl: "length key = keySize cp"
    and pk: "packets this = Val pk" and w: "materialize (packets_write env pk) = Inr bytes"
    and nf: "failure bytes = None" and v: "version this = Val 2"
    and m: "getAEADMode env (aeadAlgorithm this) False = Inr mode" "aead_contract mode"
      "4 \<le> ivLength mode"
    and h: "hkdf_contract env"
  shows "\<exists>this' d delay.
           encrypt env cfg alg key this = (None, this') \<and>
           content d = content bytes \<and> failure d = None \<and>
           decrypt env cfg alg key this' =
             (case fromBinary env d delay of
                Inl e \<Rightarrow> (Some e, this')
              | Inr pk' \<Rightarrow> (None, this'\<lparr>packets := Val pk'\<rparr>))"
proof -
  let ?this1 = "this\<lparr>cipherAlgorithm := Val alg, salt := Val (getRandomBytes env 32),
                     chunkSizeByte := Val (aeadChunkSizeByte cfg)\<rparr>"
  obtain ct where
    e: "runAEAD env (SEIPD ?this1) Encrypt key bytes =
          Inr \<lparr>kind = (if kind bytes = KStream then KStream else KArrayStream),
               content = ct, failure = None\<rparr>"
    and d: "\<And>d'. content d' = ct \<Longrightarrow> failure d' = None \<Longrightarrow>
              runAEAD env (SEIPD ?this1) Decrypt key d' =
                Inr \<lparr>kind = (if kind d' = KStream then KStream else KArrayStream),
                     content = content bytes, failure = None\<rparr>"
    using runAEAD_roundtrip[of ?this1 "aeadChunkSizeByte cfg" env mode cp bytes key]
      v m h cp nf by auto
  let ?enc = "\<lparr>kind = (if kind bytes = KStream then KStream else KArrayStream),
               content = ct, failure = None\<rparr>"
  let ?this' = "?this1\<lparr>encrypted := Val ?enc\<rparr>"
  have E: "encrypt env cfg alg key this = (None, ?this')"
    using cp kl pk w v e by (simp add: encrypt_def)
  obtain enc' where
    mt: "materialize ?enc = Inr enc'" "content enc' = ct" "failure enc' = None"
    using materialize_clean[of ?enc] by auto
  let ?out = "\<lparr>kind = (if kind enc' = KStream then KStream else KArrayStream),
               content = content bytes, failure = None\<rparr>"
  have r: "runAEAD env (SEIPD ?this') Decrypt key enc' = Inr ?out"
    using d[OF mt(2,3)] by (simp only: runAEAD_ignores_encrypted)
  have D: "decrypt env cfg alg key ?this' =
             (case fromBinary env ?out False of
                Inl e \<Rightarrow> (Some e, ?this')
              | Inr pk' \<Rightarrow> (None, ?this'\<lparr>packets := Val pk'\<rparr>))"
    using cp kl v mt(1) r by (simp add: decrypt_def)
  show ?thesis
  proof (intro exI conjI)
    show "encrypt env cfg alg key this = (None, ?this')" by (rule E)
    show "content ?out = content bytes" by simp
    show "failure ?out = None" by simp
    show "decrypt env cfg alg key ?this' =
             (case fromBinary env ?out False of
                Inl e \<Rightarrow> (Some e, ?this')
              | Inr pk' \<Rightarrow> (None, ?this'\<lparr>packets := Val pk'\<rparr>))"
      by (rule D)
  qed
qed

lemma roundtrip_v1:
  assumes cp: "getCipherParams env (Val alg) = Inr cp" and kl: "length key = keySize cp"
    and pk: "packets this = Val pk" and w: "materialize (packets_write env pk) = Inr bytes"
    and nf: "failure bytes = None" and v: "version this \<noteq> Val 2"
    and c: "cfb_contract env" "digest_contract env"
      "length (getPrefixRandom env alg) = blockSize cp + 2"
  shows "\<exists>this' d delay.
           encrypt env cfg alg key this = (None, this') \<and>
           content d = content bytes \<and> failure d = None \<and>
           decrypt env cfg alg key this' =
             (case fromBinary env d delay of
                Inl e \<Rightarrow> (Some e, this')
              | Inr pk' \<Rightarrow> (None, this'\<lparr>packets := Val pk'\<rparr>))"
proof -
  let ?prefix = "getPrefixRandom env alg"
  let ?b = "content bytes"
  let ?tohash = "?prefix @ ?b @ [0xD3, 0x14]"
  let ?hash = "computeDigest env (enums_hash_sha1 env) ?tohash"
  let ?iv = "replicate (blockSize cp) 0 :: bytes"
  let ?enc = "bytes\<lparr>content := cfb_encrypt env alg key (?tohash @ ?hash) ?iv\<rparr>"
  let ?this' = "this\<lparr>encrypted := Val ?enc\<rparr>"
  have E: "encrypt env cfg alg key this = (None, ?this')"
    using cp kl pk w v by (simp add: encrypt_def on_content_def Let_def)
  have k: "kind bytes \<noteq> KArrayStream"
    using materialize_kind(1)[OF w] .
  have mt: "materialize ?enc = Inr ?enc"
    using k by (simp add: materialize_def isArrayStream_def)
  have dec: "cfb_decrypt env alg key (content ?enc) ?iv = ?tohash @ ?hash"
    using c(1) by (simp add: cfb_contract_def)
  have hl: "length ?hash = 20"
    using c(2) by (simp add: digest_contract_def)
  then have hne: "?hash \<noteq> []"
    by (metis length_0_conv zero_neq_numeral)
  have claimed: "subarray_from (?tohash @ ?hash) (- 20) = ?hash"
    using subarray_from_neg_suffix[OF hne, of ?tohash] hl by simp
  have body: "subarray (?tohash @ ?hash) 0 (- 20) = ?tohash"
    using subarray_neg_prefix[OF hne, of ?tohash] hl by simp
  have skip: "subarray_from ?tohash (int (blockSize cp) + 2) = ?b @ [0xD3, 0x14]"
    using subarray_from_skip[of ?prefix "?b @ [0xD3, 0x14]"] c(3) by (simp add: add.commute)
  have strip: "subarray (?b @ [0xD3, 0x14]) 0 (- 2) = ?b"
    using subarray_neg_prefix[of "[0xD3, 0x14]" ?b] by simp
  have plain: "subarray (subarray_from (subarray (?tohash @ ?hash) 0 (- 20))
                  (int (blockSize cp) + 2)) 0 (- 2) = ?b"
    by (simp only: body skip strip)
  have p1: "version ?this' \<noteq> Val 2" using v by simp
  have p2: "encrypted ?this' = Val ?enc" by simp
  have p3: "failure ?enc = None" using nf by simp
  note L = decrypt_legacy[OF cp kl p1 p2 mt p3 dec[symmetric] plain[symmetric], of cfg,
      unfolded body claimed]
  have L': "(\<not> (isStream ?enc \<and> allowUnauthenticatedStream cfg) \<longrightarrow>
              decrypt env cfg alg key ?this' =
                (case fromBinary env (array ?b) False of
                   Inl e \<Rightarrow> (Some e, ?this')
                 | Inr pk \<Rightarrow> (None, ?this'\<lparr>packets := Val pk\<rparr>))) \<and>
            (isStream ?enc \<and> allowUnauthenticatedStream cfg \<longrightarrow>
              decrypt env cfg alg key ?this' =
                (case fromBinary env \<lparr>kind = KStream, content = ?b, failure = None\<rparr> True of
                   Inl e \<Rightarrow> (Some e, ?this')
                 | Inr pk \<Rightarrow> (None, ?this'\<lparr>packets := Val pk\<rparr>)))"
    using L by (simp only: refl if_True)
  show ?thesis
  proof (cases "isStream ?enc \<and> allowUnauthenticatedStream cfg")
    case True
    with L' have "decrypt env cfg alg key ?this' =
                (case fromBinary env \<lparr>kind = KStream, content = ?b, failure = None\<rparr> True of
                   Inl e \<Rightarrow> (Some e, ?this')
                 | Inr pk \<Rightarrow> (None, ?this'\<lparr>packets := Val pk\<rparr>))"
      by blast
    with E show ?thesis
      by (intro exI[of _ ?this'] exI[of _ "\<lparr>kind = KStream, content = ?b, failure = None\<rparr>"]
          exI[of _ True]) simp
  next
    case False
    with L' have "decrypt env cfg alg key ?this' =
                (case fromBinary env (array ?b) False of
                   Inl e \<Rightarrow> (Some e, ?this')
                 | Inr pk \<Rightarrow> (None, ?this'\<lparr>packets := Val pk\<rparr>))"
      by blast
    with E show ?thesis
      by (intro exI[of _ ?this'] exI[of _ "array ?b"] exI[of _ False]) (simp add: array_def)
  qed
qed

lemma sample_legacy_contracts:
  "cfb_contract sample_env" "digest_contract sample_env"
  "length (getPrefixRandom sample_env 7) = blockSize \<lparr>blockSize = 16, keySize = 16\<rparr> + 2"
proof -
  show "cfb_contract sample_env"
    by (simp add: cfb_contract_def sample_env_def comp_def)
  show "digest_contract sample_env"
    by (simp add: digest_contract_def sample_env_def)
  show "length (getPrefixRandom sample_env 7) = blockSize \<lparr>blockSize = 16, keySize = 16\<rparr> + 2"
    by (simp add: sample_env_def)
qed

text \<open>
  Claim C1. For a key of the cipher's key size and a packet whose inner packets
  serialize to \<open>bytes\<close> (a source that ends cleanly), \<open>encrypt\<close> succeeds and
  \<open>decrypt\<close> of the packet it leaves, with the same key, hands the packet list parser
  data that delivers exactly \<open>bytes\<close> and ends cleanly; what \<open>decrypt\<close> returns is
  what the parser makes of them. This holds for version 2 with every cipher algorithm,
  AEAD algorithm and chunk-size byte and every plaintext length, whenever the AEAD mode
  keeps its contract (\<open>decrypt\<close> undoes \<open>encrypt\<close>, which appends \<open>tagLength\<close>
  bytes), its IV has at least four bytes and HKDF returns the length asked for; and for
  the legacy version whenever CFB decryption undoes CFB encryption, the digest has 20
  bytes and the random prefix has \<open>blockSize + 2\<close> bytes.
\<close>

theorem encrypt_decrypt_roundtrip:
  assumes "getCipherParams env (Val alg) = Inr cp" and "length key = keySize cp"
    and "packets this = Val pk" and "materialize (packets_write env pk) = Inr bytes"
    and "failure bytes = None"
    and "version this = Val 2 \<longrightarrow>
           (\<exists>mode. getAEADMode env (aeadAlgorithm this) False = Inr mode \<and>
                   aead_contract mode \<and> 4 \<le> ivLength mode) \<and> hkdf_contract env"
    and "version this \<noteq> Val 2 \<longrightarrow>
           cfb_contract env \<and> digest_contract env \<and>
           length (getPrefixRandom env alg) = blockSize cp + 2"
  shows "\<exists>this' d delay.
           encrypt env cfg alg key this = (None, this') \<and>
           content d = content bytes \<and> failure d = None \<and>
           decrypt env cfg alg key this' =
             (case fromBinary env d delay of
                Inl e \<Rightarrow> (Some e, this')
              | Inr pk' \<Rightarrow> (None, this'\<lparr>packets := Val pk'\<rparr>))"
proof (cases "version this = Val 2")
  case True
  then obtain mode where "getAEADMode env (aeadAlgorithm this) False = Inr mode"
    "aead_contract mode" "4 \<le> ivLength mode" "hkdf_contract env"
    using assms(6) by blast
  from roundtrip_v2[OF assms(1-5) True this] show ?thesis .
next
  case False
  then have "cfb_contract env" "digest_contract env"
    "length (getPrefixRandom env alg) = blockSize cp + 2"
    using assms(7) by simp_all
  from roundtrip_v1[OF assms(1-5) False this] show ?thesis .
qed

theorem encrypt_decrypt_roundtrip_witness:
  "(\<exists>this'. encrypt sample_env sample_config 7 sample_key sample_packet = (None, this') \<and>
            decrypt sample_env sample_config 7 sample_key this' =
              (None, this'\<lparr>packets := Val [1, 2, 3]\<rparr>)) \<and>
   (\<exists>this'. encrypt sample_env sample_config 7 sample_key (sample_packet\<lparr>version := Val 1\<rparr>) =
              (None, this') \<and>
            decrypt sample_env sample_config 7 sample_key this' =
              (None, this'\<lparr>packets := Val [1, 2, 3]\<rparr>))"
proof -
  have k: "length sample_key = keySize \<lparr>blockSize = 16, keySize = 16\<rparr>"
    by (simp add: sample_key_def)
  have w: "materialize (packets_write sample_env [1, 2, 3]) = Inr (array [1, 2, 3])"
    "failure (array [1, 2, 3]) = None"
    by (simp_all add: sample_env_def materialize_def isArrayStream_def array_def)
  have fb: "fromBinary sample_env d delay = Inr [1, 2, 3]"
    if "content d = content (array [1, 2, 3])" "failure d = None" for d delay
    using that by (simp add: sample_env_def array_def)
  have v2: "version sample_packet = Val 2 \<longrightarrow>
              (\<exists>mode. getAEADMode sample_env (aeadAlgorithm sample_packet) False = Inr mode \<and>
                      aead_contract mode \<and> 4 \<le> ivLength mode) \<and> hkdf_contract sample_env"
    using sample_facts(3,6,7) sample_aead_contract by blast
  have n2: "version sample_packet \<noteq> Val 2 \<longrightarrow>
              cfb_contract sample_env \<and> digest_contract sample_env \<and>
              length (getPrefixRandom sample_env 7) =
                blockSize \<lparr>blockSize = 16, keySize = 16\<rparr> + 2"
    using sample_legacy_contracts by blast
  have p2: "packets sample_packet = Val [1, 2, 3]"
    by (simp add: sample_packet_def)
  let ?p1 = "sample_packet\<lparr>version := Val 1\<rparr>"
  have v1: "version ?p1 = Val 2 \<longrightarrow>
              (\<exists>mode. getAEADMode sample_env (aeadAlgorithm ?p1) False = Inr mode \<and>
                      aead_contract mode \<and> 4 \<le> ivLength mode) \<and> hkdf_contract sample_env"
    by simp
  have n1: "version ?p1 \<noteq> Val 2 \<longrightarrow>
              cfb_contract sample_env \<and> digest_contract sample_env \<and>
              length (getPrefixRandom sample_env 7) =
                blockSize \<lparr>blockSize = 16, keySize = 16\<rparr> + 2"
    using sample_legacy_contracts by blast
  have p1: "packets ?p1 = Val [1, 2, 3]"
    by (simp add: sample_packet_def)
  from encrypt_decrypt_roundtrip[OF sample_facts(5) k p2 w v2 n2, of sample_config]
  have a: "\<exists>this'. encrypt sample_env sample_config 7 sample_key sample_packet = (None, this') \<and>
            decrypt sample_env sample_config 7 sample_key this' =
              (None, this'\<lparr>packets := Val [1, 2, 3]\<rparr>)"
    using fb by fastforce
  from encrypt_decrypt_roundtrip[OF sample_facts(5) k p1 w v1 n1, of sample_config]
  have b: "\<exists>this'. encrypt sample_env sample_config 7 sample_key ?p1 = (None, this') \<and>
            decrypt sample_env sample_config 7 sample_key this' =
              (None, this'\<lparr>packets := Val [1, 2, 3]\<rparr>)"
    using fb by fastforce
  show ?thesis
    using a b by blast
qed

end
